theory Spec2Isabelle
  imports Main
begin

section \<open>Calendar arithmetic of the JavaScript Date object\<close>

text \<open>
  \<^verbatim>\<open>src/lib/utils.ts\<close> computes on JavaScript \<^verbatim>\<open>Date\<close> values through the
  \<^verbatim>\<open>date-fns\<close> library. A \<^verbatim>\<open>Date\<close> is a time value: milliseconds since
  1970-01-01T00:00Z. The calendar fields are those of ECMA-262, section 21.4.1
  (\<^verbatim>\<open>DayFromYear\<close>, \<^verbatim>\<open>YearFromTime\<close>, \<^verbatim>\<open>MonthFromTime\<close>, \<^verbatim>\<open>DateFromTime\<close>,
  \<^verbatim>\<open>WeekDay\<close>, \<^verbatim>\<open>MakeDay\<close>), here on day numbers (days since the epoch).
  Local time is UTC plus a fixed offset \<open>tz\<close> in milliseconds (no daylight-saving
  transitions).
\<close>

type_synonym Date = int

definition msPerDay :: int where
  "msPerDay = 86400000"

definition millisecondsInWeek :: int where
  "millisecondsInWeek = 604800000"

definition DayFromYear :: "int \<Rightarrow> int" where
  "DayFromYear y =
     365 * (y - 1970) + (y - 1969) div 4 - (y - 1901) div 100 + (y - 1601) div 400"

definition InLeapYear :: "int \<Rightarrow> bool" where
  "InLeapYear y = (y mod 4 = 0 \<and> (y mod 100 \<noteq> 0 \<or> y mod 400 = 0))"

definition leapDay :: "int \<Rightarrow> int" where
  "leapDay y = (if InLeapYear y then 1 else 0)"

text \<open>
  ECMA-262 defines \<^verbatim>\<open>YearFromTime(t)\<close> as the largest year whose first day is not
  after \<open>t\<close>. The estimate \<open>1970 + 400 d div 146097\<close> is off by at most one year, so
  one comparison on each side finds it (lemma \<open>YearFromDay_bracket\<close>).
\<close>

definition YearFromDay :: "int \<Rightarrow> int" where
  "YearFromDay d =
     (let e = 1970 + (400 * d) div 146097
      in if DayFromYear (e + 1) \<le> d then e + 1
         else if DayFromYear e \<le> d then e
         else e - 1)"

definition DayWithinYear :: "int \<Rightarrow> int" where
  "DayWithinYear d = d - DayFromYear (YearFromDay d)"

text \<open>The day within the year on which month \<open>m\<close> (0-based) starts.\<close>

definition monthStart :: "int \<Rightarrow> int \<Rightarrow> int" where
  "monthStart l m =
     (if m = 0 then 0 else if m = 1 then 31 else if m = 2 then 59 + l
      else if m = 3 then 90 + l else if m = 4 then 120 + l else if m = 5 then 151 + l
      else if m = 6 then 181 + l else if m = 7 then 212 + l else if m = 8 then 243 + l
      else if m = 9 then 273 + l else if m = 10 then 304 + l else 334 + l)"

definition MonthFromDay :: "int \<Rightarrow> int" where
  "MonthFromDay d =
     (let w = DayWithinYear d; l = leapDay (YearFromDay d)
      in if w < 31 then 0 else if w < 59 + l then 1 else if w < 90 + l then 2
         else if w < 120 + l then 3 else if w < 151 + l then 4 else if w < 181 + l then 5
         else if w < 212 + l then 6 else if w < 243 + l then 7 else if w < 273 + l then 8
         else if w < 304 + l then 9 else if w < 334 + l then 10 else 11)"

definition DateFromDay :: "int \<Rightarrow> int" where
  "DateFromDay d =
     DayWithinYear d - monthStart (leapDay (YearFromDay d)) (MonthFromDay d) + 1"

text \<open>\<^verbatim>\<open>WeekDay\<close>: 0 is Sunday; 1970-01-01 was a Thursday.\<close>

definition WeekDay :: "int \<Rightarrow> int" where
  "WeekDay d = (d + 4) mod 7"

text \<open>\<^verbatim>\<open>MakeDay(year, month, date)\<close> for a month in 0..11; the date may overflow
  the month (\<^verbatim>\<open>setFullYear(y + 1, 0, 0)\<close> is December 31 of \<open>y\<close>).\<close>

definition MakeDay :: "int \<Rightarrow> int \<Rightarrow> int \<Rightarrow> int" where
  "MakeDay y m dt = DayFromYear y + monthStart (leapDay y) m + dt - 1"

definition localDay :: "int \<Rightarrow> Date \<Rightarrow> int" where
  "localDay tz t = (t + tz) div msPerDay"

definition localMidnight :: "int \<Rightarrow> int \<Rightarrow> Date" where
  "localMidnight tz d = d * msPerDay - tz"

section \<open>The functions of date-fns that the module imports\<close>

definition getYear :: "int \<Rightarrow> Date \<Rightarrow> int" where
  "getYear tz t = YearFromDay (localDay tz t)"

definition getMonth :: "int \<Rightarrow> Date \<Rightarrow> int" where
  "getMonth tz t = MonthFromDay (localDay tz t)"

definition getDate :: "int \<Rightarrow> Date \<Rightarrow> int" where
  "getDate tz t = DateFromDay (localDay tz t)"

definition getUTCDate :: "Date \<Rightarrow> int" where
  "getUTCDate t = DateFromDay (t div msPerDay)"

definition getUTCMonth :: "Date \<Rightarrow> int" where
  "getUTCMonth t = MonthFromDay (t div msPerDay)"

definition getQuarter :: "int \<Rightarrow> Date \<Rightarrow> int" where
  "getQuarter tz t = getMonth tz t div 3 + 1"

definition addDays :: "Date \<Rightarrow> int \<Rightarrow> Date" where
  "addDays t n = t + n * msPerDay"

definition isSameDay :: "int \<Rightarrow> Date \<Rightarrow> Date \<Rightarrow> bool" where
  "isSameDay tz a b = (localDay tz a = localDay tz b)"

definition startOfYear :: "int \<Rightarrow> Date \<Rightarrow> Date" where
  "startOfYear tz t = localMidnight tz (MakeDay (getYear tz t) 0 1)"

definition endOfYear :: "int \<Rightarrow> Date \<Rightarrow> Date" where
  "endOfYear tz t = localMidnight tz (MakeDay (getYear tz t + 1) 0 0) + (msPerDay - 1)"

text \<open>\<^verbatim>\<open>startOfWeek(date, { weekStartsOn: 0 })\<close>: midnight of the Sunday on or
  before the date.\<close>

definition startOfWeek :: "int \<Rightarrow> Date \<Rightarrow> Date" where
  "startOfWeek tz t =
     (let d = localDay tz t in localMidnight tz (d - WeekDay d))"

text \<open>\<^verbatim>\<open>getWeekYear\<close>, \<^verbatim>\<open>startOfWeekYear\<close> and \<^verbatim>\<open>getWeek\<close> with
  \<^verbatim>\<open>weekStartsOn: 0\<close> and the default \<^verbatim>\<open>firstWeekContainsDate: 1\<close>: week 1 is the
  week (Sunday to Saturday) that contains January 1.\<close>

definition getWeekYear :: "int \<Rightarrow> Date \<Rightarrow> int" where
  "getWeekYear tz t =
     (let year = getYear tz t;
          startOfNextYear = startOfWeek tz (localMidnight tz (MakeDay (year + 1) 0 1));
          startOfThisYear = startOfWeek tz (localMidnight tz (MakeDay year 0 1))
      in if startOfNextYear \<le> t then year + 1
         else if startOfThisYear \<le> t then year
         else year - 1)"

definition startOfWeekYear :: "int \<Rightarrow> Date \<Rightarrow> Date" where
  "startOfWeekYear tz t =
     startOfWeek tz (localMidnight tz (MakeDay (getWeekYear tz t) 0 1))"

text \<open>\<^verbatim>\<open>Math.round(x / y)\<close> for a positive \<open>y\<close>: the nearest integer, halves up.\<close>

definition roundDiv :: "int \<Rightarrow> int \<Rightarrow> int" where
  "roundDiv x y = (2 * x + y) div (2 * y)"

definition getWeek :: "int \<Rightarrow> Date \<Rightarrow> int" where
  "getWeek tz t =
     roundDiv (startOfWeek tz t - startOfWeekYear tz t) millisecondsInWeek + 1"

text \<open>\<^verbatim>\<open>Math.ceil(n / 2)\<close> on an integer \<open>n\<close>.\<close>

definition ceilHalf :: "int \<Rightarrow> int" where
  "ceilHalf n = - ((- n) div 2)"

subsection \<open>Formatting and parsing\<close>

text \<open>Decimal digits are the character codes 48 to 57.\<close>

definition digitChar :: "nat \<Rightarrow> char" where
  "digitChar n = char_of (48 + n)"

definition digitVal :: "char \<Rightarrow> nat option" where
  "digitVal c =
     (let code = (of_char c :: nat)
      in if 48 \<le> code \<and> code \<le> 57 then Some (code - 48) else None)"

text \<open>\<^verbatim>\<open>Number.prototype.toString()\<close> on a natural number.\<close>

fun natToString :: "nat \<Rightarrow> string" where
  "natToString n =
     (if n < 10 then [digitChar n] else natToString (n div 10) @ [digitChar (n mod 10)])"

declare natToString.simps [simp del]

definition padStart :: "nat \<Rightarrow> char \<Rightarrow> string \<Rightarrow> string" where
  "padStart targetLength c s = replicate (targetLength - length s) c @ s"

text \<open>\<^verbatim>\<open>addLeadingZeros(number, targetLength)\<close> of date-fns.\<close>

definition addLeadingZeros :: "int \<Rightarrow> nat \<Rightarrow> string" where
  "addLeadingZeros number targetLength =
     (if number < 0 then ''-'' else '''') @
     padStart targetLength (CHR ''0'') (natToString (nat \<bar>number\<bar>))"

text \<open>
  \<^verbatim>\<open>format(date, "yyyy-MM-dd")\<close>. The token \<^verbatim>\<open>yyyy\<close> prints the year of the era,
  padded to four digits. The formatter of date-fns computes it as
  \<^verbatim>\<open>signedYear > 0 ? signedYear : 1 - signedYear\<close>: the year 0 of the Date object is
  1 BC and prints as \<^verbatim>\<open>0001\<close>, like the year 1.
\<close>

definition format :: "int \<Rightarrow> Date \<Rightarrow> string" where
  "format tz t =
     (let signedYear = getYear tz t;
          year = (if signedYear > 0 then signedYear else 1 - signedYear)
      in addLeadingZeros year 4 @ ''-'' @ addLeadingZeros (getMonth tz t + 1) 2
         @ ''-'' @ addLeadingZeros (getDate tz t) 2)"

fun parseDigits :: "nat \<Rightarrow> string \<Rightarrow> nat option" where
  "parseDigits acc [] = Some acc"
| "parseDigits acc (c # cs) =
     (case digitVal c of None \<Rightarrow> None | Some v \<Rightarrow> parseDigits (10 * acc + v) cs)"

text \<open>\<^verbatim>\<open>validateDate(year, month, date)\<close> of \<^verbatim>\<open>parseISO\<close>; the month is 0-based.\<close>

definition daysInMonth :: "int \<Rightarrow> int \<Rightarrow> int" where
  "daysInMonth year month =
     (if month = 1 then (if InLeapYear year then 29 else 28)
      else if month = 3 \<or> month = 5 \<or> month = 8 \<or> month = 10 then 30 else 31)"

definition validateDate :: "int \<Rightarrow> int \<Rightarrow> int \<Rightarrow> bool" where
  "validateDate year month date =
     (0 \<le> month \<and> month \<le> 11 \<and> 1 \<le> date \<and> date \<le> daysInMonth year month)"

text \<open>
  \<^verbatim>\<open>parseISO\<close>, on the forms of the extended ISO 8601 format that carry a calendar
  date: \<^verbatim>\<open>YYYY-MM-DD\<close>, alone or followed by \<^verbatim>\<open>T\<close> (or a space), a time
  \<^verbatim>\<open>HH:mm\<close> or \<^verbatim>\<open>HH:mm:ss\<close>, and possibly a zone \<^verbatim>\<open>Z\<close>, \<^verbatim>\<open>+HH\<close>, \<^verbatim>\<open>+HH:mm\<close>
  or \<^verbatim>\<open>+HHmm\<close> (or with \<^verbatim>\<open>-\<close>). The steps
  are those of date-fns: split at the delimiter, parse the date, the time and the
  zone, validate each. Without a zone the fields are local time; a string with a date
  only is local midnight of that day.

  \<open>None\<close> is returned for every other string: for those that date-fns turns into
  \<^verbatim>\<open>Invalid Date\<close>, and for the further forms it accepts (basic format, week and
  ordinal dates, a year alone, expanded years, fractions of hours, minutes or
  seconds), which are not covered. No function below draws a conclusion from
  \<open>None\<close>.
\<close>

definition parseDate :: "string \<Rightarrow> int option" where
  "parseDate s =
     (if length s = 10 \<and> s ! 4 = CHR ''-'' \<and> s ! 7 = CHR ''-'' then
        (case (parseDigits 0 (take 4 s), parseDigits 0 (take 2 (drop 5 s)),
               parseDigits 0 (drop 8 s)) of
           (Some y, Some m, Some d) \<Rightarrow>
             (if validateDate (int y) (int m - 1) (int d)
              then Some (MakeDay (int y) (int m - 1) (int d))
              else None)
         | _ \<Rightarrow> None)
      else None)"

text \<open>\<^verbatim>\<open>validateTime(hours, minutes, seconds)\<close>; the three numbers are read from
  digits and so are never negative.\<close>

definition validateTime :: "int \<Rightarrow> int \<Rightarrow> int \<Rightarrow> bool" where
  "validateTime hours minutes seconds =
     (if hours = 24 then minutes = 0 \<and> seconds = 0
      else seconds < 60 \<and> minutes < 60 \<and> hours < 25)"

text \<open>\<^verbatim>\<open>parseTime\<close>: the milliseconds since midnight.\<close>

definition parseTime :: "string \<Rightarrow> int option" where
  "parseTime s =
     (if (length s = 5 \<or> (length s = 8 \<and> s ! 5 = CHR '':'')) \<and> s ! 2 = CHR '':'' then
        (case (parseDigits 0 (take 2 s), parseDigits 0 (take 2 (drop 3 s)),
               parseDigits 0 (drop 6 s)) of
           (Some hours, Some minutes, Some seconds) \<Rightarrow>
             (if validateTime (int hours) (int minutes) (int seconds)
              then Some (int hours * 3600000 + int minutes * 60000 + int seconds * 1000)
              else None)
         | _ \<Rightarrow> None)
      else None)"

text \<open>\<^verbatim>\<open>parseTimezone\<close>: the milliseconds to add to the time read as UTC. Only the
  minutes are validated, as in date-fns.\<close>

definition parseTimezone :: "string \<Rightarrow> int option" where
  "parseTimezone s =
     (if s = ''Z'' then Some 0
      else if (length s = 3 \<or> length s = 5 \<or> (length s = 6 \<and> s ! 3 = CHR '':''))
              \<and> (s ! 0 = CHR ''+'' \<or> s ! 0 = CHR ''-'') then
        (case (parseDigits 0 (take 2 (drop 1 s)),
               if length s = 3 then Some 0
               else parseDigits 0 (drop (length s - 2) s)) of
           (Some hours, Some minutes) \<Rightarrow>
             (if minutes \<le> 59
              then Some ((if s ! 0 = CHR ''+'' then - 1 else 1)
                         * (int hours * 3600000 + int minutes * 60000))
              else None)
         | _ \<Rightarrow> None)
      else None)"

definition isDateTimeDelimiter :: "char \<Rightarrow> bool" where
  "isDateTimeDelimiter c = (c = CHR ''T'' \<or> c = CHR '' '')"

definition startsTimezone :: "char \<Rightarrow> bool" where
  "startsTimezone c = (c = CHR ''Z'' \<or> c = CHR ''+'' \<or> c = CHR ''-'')"

definition parseISO :: "int \<Rightarrow> string \<Rightarrow> Date option" where
  "parseISO tz s =
     (let dateString = takeWhile (\<lambda>c. \<not> isDateTimeDelimiter c) s;
          timeString = drop 1 (dropWhile (\<lambda>c. \<not> isDateTimeDelimiter c) s)
      in if list_ex isDateTimeDelimiter timeString then None
         else (case parseDate dateString of
                 None \<Rightarrow> None
               | Some day \<Rightarrow>
                   (let time = takeWhile (\<lambda>c. \<not> startsTimezone c) timeString;
                        timezone = dropWhile (\<lambda>c. \<not> startsTimezone c) timeString
                    in case (if time = [] then Some 0 else parseTime time) of
                         None \<Rightarrow> None
                       | Some ms \<Rightarrow>
                           (if timezone = [] then Some (localMidnight tz day + ms)
                            else (case parseTimezone timezone of
                                    None \<Rightarrow> None
                                  | Some offset \<Rightarrow> Some (day * msPerDay + ms + offset))))))"

fun parseAll :: "int \<Rightarrow> string list \<Rightarrow> Date list option" where
  "parseAll tz [] = Some []"
| "parseAll tz (s # ss) =
     (case parseISO tz s of None \<Rightarrow> None
      | Some d \<Rightarrow> (case parseAll tz ss of None \<Rightarrow> None | Some ds \<Rightarrow> Some (d # ds)))"

section \<open>Frequencies and the clock\<close>

text \<open>
  Modelled from the spec: the constant \<^verbatim>\<open>Frequency\<close> of
  \<^verbatim>\<open>@/constants/frequency.constant\<close> is not among the sources. Its eight members are
  those that the spec lists and the \<^verbatim>\<open>case\<close> labels of \<^verbatim>\<open>utils.ts\<close> name;
  \<open>Unrecognized\<close> stands for any other value that reaches a \<^verbatim>\<open>switch\<close>.
\<close>

datatype Frequency =
    DAILY | WEEKLY | BIWEEKLY | SEMIMONTHLY | MONTHLY | QUARTERLY | SEMSTERLY | YEARLY
  | Unrecognized string

text \<open>What a call reads from its surroundings: the offset of local time from UTC and
  the time \<^verbatim>\<open>new Date()\<close> returns, both in milliseconds.\<close>

record Clock =
  tzOffset :: int
  now :: Date

text \<open>The interface \<^verbatim>\<open>Streak\<close>, \<^verbatim>\<open>{ current: number, record: number }\<close>; the field
  \<^verbatim>\<open>record\<close> is \<open>record_streak\<close> here.\<close>

record Streak =
  current :: int
  record_streak :: int

section \<open>Streaks\<close>

definition isConsecutive :: "int \<Rightarrow> Date \<Rightarrow> Date \<Rightarrow> Frequency \<Rightarrow> bool" where
  "isConsecutive tz prevDate currDate frequency =
     (case frequency of
        DAILY \<Rightarrow> isSameDay tz (addDays prevDate 1) currDate
      | WEEKLY \<Rightarrow> getWeek tz prevDate + 1 = getWeek tz currDate
      | BIWEEKLY \<Rightarrow> ceilHalf (getWeek tz prevDate) + 1 = ceilHalf (getWeek tz currDate)
      | SEMIMONTHLY \<Rightarrow>
          (let prevMonth = getMonth tz prevDate; currMonth = getMonth tz currDate
           in (prevMonth = currMonth \<and> \<bar>getDate tz prevDate - getDate tz currDate\<bar> \<le> 15) \<or>
              (prevMonth \<noteq> currMonth \<and> getDate tz prevDate > 15 \<and> getDate tz currDate \<le> 15))
      | MONTHLY \<Rightarrow> getMonth tz prevDate + 1 = getMonth tz currDate
      | QUARTERLY \<Rightarrow> getQuarter tz prevDate + 1 = getQuarter tz currDate
      | SEMSTERLY \<Rightarrow>
          (let prevSemester = (if getMonth tz prevDate < 6 then 1 else 2 :: int);
               currSemester = (if getMonth tz currDate < 6 then 1 else 2 :: int)
           in prevSemester = currSemester \<and>
              \<bar>getMonth tz prevDate - getMonth tz currDate\<bar> \<le> 6)
      | YEARLY \<Rightarrow> getYear tz prevDate + 1 = getYear tz currDate
      | Unrecognized v \<Rightarrow> False)"

definition isValidStreak :: "int \<Rightarrow> Date \<Rightarrow> Date \<Rightarrow> Frequency \<Rightarrow> bool" where
  "isValidStreak tz lastDate today frequency =
     (case frequency of
        DAILY \<Rightarrow> isSameDay tz lastDate today \<or> isSameDay tz (addDays lastDate 1) today
      | WEEKLY \<Rightarrow>
          getWeek tz lastDate = getWeek tz today \<or> getWeek tz lastDate + 1 = getWeek tz today
      | BIWEEKLY \<Rightarrow>
          ceilHalf (getWeek tz lastDate) = ceilHalf (getWeek tz today) \<or>
          ceilHalf (getWeek tz lastDate) + 1 = ceilHalf (getWeek tz today)
      | SEMIMONTHLY \<Rightarrow>
          (let lastMonth = getMonth tz lastDate; thisMonth = getMonth tz today
           in (lastMonth = thisMonth \<and> \<bar>getDate tz lastDate - getDate tz today\<bar> \<le> 15) \<or>
              (lastMonth \<noteq> thisMonth \<and> getDate tz lastDate > 15 \<and> getDate tz today \<le> 15))
      | MONTHLY \<Rightarrow>
          getMonth tz lastDate = getMonth tz today \<or> getMonth tz lastDate + 1 = getMonth tz today
      | QUARTERLY \<Rightarrow>
          getQuarter tz lastDate = getQuarter tz today \<or>
          getQuarter tz lastDate + 1 = getQuarter tz today
      | SEMSTERLY \<Rightarrow>
          (let lastSemester = (if getMonth tz lastDate < 6 then 1 else 2 :: int);
               thisSemester = (if getMonth tz today < 6 then 1 else 2 :: int)
           in lastSemester = thisSemester \<and>
              \<bar>getMonth tz lastDate - getMonth tz today\<bar> \<le> 6)
      | YEARLY \<Rightarrow>
          getYear tz lastDate = getYear tz today \<or> getYear tz lastDate + 1 = getYear tz today
      | Unrecognized v \<Rightarrow> False)"

text \<open>
  The \<^verbatim>\<open>for\<close> loop of \<^verbatim>\<open>calculateStreaks\<close> over the sorted dates, from index 1:
  \<open>prevDate\<close> is \<^verbatim>\<open>parsedDates[i - 1]\<close>, the list holds \<^verbatim>\<open>parsedDates[i..]\<close>, the
  pair is \<^verbatim>\<open>(streak, longestStreak)\<close>.
\<close>

fun streakLoop :: "int \<Rightarrow> Frequency \<Rightarrow> Date \<Rightarrow> Date list \<Rightarrow> int \<times> int \<Rightarrow> int \<times> int" where
  "streakLoop tz frequency prevDate [] (streak, longestStreak) = (streak, longestStreak)"
| "streakLoop tz frequency prevDate (currDate # rest) (streak, longestStreak) =
     (if isConsecutive tz prevDate currDate frequency
      then streakLoop tz frequency currDate rest (streak + 1, max longestStreak (streak + 1))
      else streakLoop tz frequency currDate rest (1, longestStreak))"

text \<open>\<^verbatim>\<open>calculateStreaks\<close> after \<^verbatim>\<open>parseISO\<close>: the dates are time values.\<close>

definition streaksOfDates :: "Clock \<Rightarrow> Date list \<Rightarrow> Frequency \<Rightarrow> Streak" where
  "streaksOfDates clock dates frequency =
     (case sort dates of
        [] \<Rightarrow> \<lparr>current = 0, record_streak = 0\<rparr>
      | first # rest \<Rightarrow>
          (let (streak, longestStreak) =
                 streakLoop (tzOffset clock) frequency first rest (1, 1);
               currentStreak =
                 (if isValidStreak (tzOffset clock) (last (first # rest)) (now clock) frequency
                  then streak else 0)
           in \<lparr>current = currentStreak, record_streak = longestStreak\<rparr>))"

text \<open>\<^verbatim>\<open>calculateStreaks(dates, frequency)\<close>. \<open>None\<close>: the model of \<^verbatim>\<open>parseISO\<close>
  does not turn every string into a time value (the computation on \<^verbatim>\<open>Invalid Date\<close>
  is not modelled).\<close>

definition calculateStreaks :: "Clock \<Rightarrow> string list \<Rightarrow> Frequency \<Rightarrow> Streak option" where
  "calculateStreaks clock dates frequency =
     (if dates = [] then Some \<lparr>current = 0, record_streak = 0\<rparr>
      else (case parseAll (tzOffset clock) dates of
              None \<Rightarrow> None
            | Some parsedDates \<Rightarrow> Some (streaksOfDates clock parsedDates frequency)))"

section \<open>The disable-today predicate\<close>

definition isToday :: "Clock \<Rightarrow> Date \<Rightarrow> bool" where
  "isToday clock t = isSameDay (tzOffset clock) t (now clock)"

definition isThisWeek :: "Clock \<Rightarrow> Date \<Rightarrow> bool" where
  "isThisWeek clock t =
     (startOfWeek (tzOffset clock) t = startOfWeek (tzOffset clock) (now clock))"

definition isThisMonth :: "Clock \<Rightarrow> Date \<Rightarrow> bool" where
  "isThisMonth clock t =
     (getYear (tzOffset clock) t = getYear (tzOffset clock) (now clock) \<and>
      getMonth (tzOffset clock) t = getMonth (tzOffset clock) (now clock))"

definition startOfQuarter :: "int \<Rightarrow> Date \<Rightarrow> Date" where
  "startOfQuarter tz t =
     (let currentMonth = getMonth tz t; month = currentMonth - currentMonth mod 3
      in localMidnight tz (MakeDay (getYear tz t) month 1))"

definition isThisQuarter :: "Clock \<Rightarrow> Date \<Rightarrow> bool" where
  "isThisQuarter clock t =
     (startOfQuarter (tzOffset clock) t = startOfQuarter (tzOffset clock) (now clock))"

definition isThisYear :: "Clock \<Rightarrow> Date \<Rightarrow> bool" where
  "isThisYear clock t = (getYear (tzOffset clock) t = getYear (tzOffset clock) (now clock))"

text \<open>
  \<^verbatim>\<open>completions.some((completion) => p(parseISO(completion)))\<close> tests the completions
  in order and stops at the first that passes. \<open>None\<close>: it reached a completion that
  the model of \<^verbatim>\<open>parseISO\<close> does not turn into a time value, and nothing is said of
  the result.
\<close>

fun someParsed :: "int \<Rightarrow> (Date \<Rightarrow> bool) \<Rightarrow> string list \<Rightarrow> bool option" where
  "someParsed tz p [] = Some False"
| "someParsed tz p (completion # rest) =
     (case parseISO tz completion of
        None \<Rightarrow> None
      | Some d \<Rightarrow> if p d then Some True else someParsed tz p rest)"

definition handleDisable :: "Clock \<Rightarrow> Frequency \<Rightarrow> string list \<Rightarrow> bool option" where
  "handleDisable clock frequency completions =
     (let tz = tzOffset clock; today = now clock
      in case frequency of
           DAILY \<Rightarrow> someParsed tz (isToday clock) completions
         | WEEKLY \<Rightarrow> someParsed tz (isThisWeek clock) completions
         | BIWEEKLY \<Rightarrow>
             (let currentWeek = getWeek tz today
              in someParsed tz
                   (\<lambda>completionDate.
                      let completionWeek = getWeek tz completionDate
                      in if completionWeek = currentWeek then True
                         else if completionWeek = currentWeek - 1
                         then ceilHalf currentWeek = ceilHalf completionWeek
                         else False)
                   completions)
         | SEMIMONTHLY \<Rightarrow>
             (let dayOfMonth = getUTCDate today
              in someParsed tz
                   (\<lambda>completionDate.
                      let completionDayOfMonth = getUTCDate completionDate
                      in (dayOfMonth \<le> 15 \<and> completionDayOfMonth \<le> 15) \<or>
                         (dayOfMonth > 15 \<and> completionDayOfMonth > 15))
                   completions)
         | MONTHLY \<Rightarrow> someParsed tz (isThisMonth clock) completions
         | QUARTERLY \<Rightarrow> someParsed tz (isThisQuarter clock) completions
         | SEMSTERLY \<Rightarrow>
             (let month = getUTCMonth today
              in someParsed tz
                   (\<lambda>completionDate.
                      let completionMonth = getUTCMonth completionDate
                      in (month < 6 \<and> completionMonth < 6) \<or>
                         (month \<ge> 6 \<and> completionMonth \<ge> 6))
                   completions)
         | YEARLY \<Rightarrow> someParsed tz (isThisYear clock) completions
         | Unrecognized v \<Rightarrow> Some False)"

section \<open>The period bucketers\<close>

text \<open>
  The maps \<^verbatim>\<open>weeksMap\<close>, \<^verbatim>\<open>monthsMap\<close>, ... are JavaScript objects whose keys are
  period numbers. \<^verbatim>\<open>Object.values\<close> lists the properties with integer-index keys in
  ascending numeric order, whatever the order of insertion, so the object is an
  association list kept in ascending key order. (All keys here are non-negative:
  week, month, quarter and semester numbers, and years from 0000 on.)
\<close>

type_synonym 'v jsobj = "(int \<times> 'v) list"

fun objSet :: "int \<Rightarrow> 'v \<Rightarrow> 'v jsobj \<Rightarrow> 'v jsobj" where
  "objSet k v [] = [(k, v)]"
| "objSet k v ((k', v') # rest) =
     (if k < k' then (k, v) # (k', v') # rest
      else if k = k' then (k, v) # rest
      else (k', v') # objSet k v rest)"

definition Object_values :: "'v jsobj \<Rightarrow> 'v list" where
  "Object_values m = map snd m"

text \<open>
  One record for the bucket objects of all seven functions: \<open>period\<close> is the field
  \<^verbatim>\<open>week\<close>, \<^verbatim>\<open>biWeek\<close>, \<^verbatim>\<open>month\<close>, \<^verbatim>\<open>quarter\<close>, \<^verbatim>\<open>semester\<close> or \<^verbatim>\<open>year\<close>;
  \<open>detail\<close> is \<^verbatim>\<open>days\<close> in \<^verbatim>\<open>getDailyData\<close>, \<^verbatim>\<open>weeks\<close> in
  \<^verbatim>\<open>getBiWeeklyData\<close>, and absent (\<open>unit\<close>) elsewhere.
\<close>

record 'a Bucket =
  period :: int
  level :: int
  detail :: 'a

text \<open>One pass of a loop body: create the bucket of period \<open>k\<close> if it is missing,
  add \<open>lv\<close> to its level, and when \<open>lv\<close> is 1 record the day in its detail.\<close>

definition addToBucket ::
  "int \<Rightarrow> int \<Rightarrow> ('a \<Rightarrow> 'a) \<Rightarrow> 'a \<Rightarrow> 'a Bucket jsobj \<Rightarrow> 'a Bucket jsobj" where
  "addToBucket k lv push blank m =
     (let b = (case map_of m k of
                 None \<Rightarrow> \<lparr>period = k, level = 0, detail = blank\<rparr>
               | Some b \<Rightarrow> b)
      in objSet k
           (b\<lparr>level := level b + lv,
              detail := (if lv = 1 then push (detail b) else detail b)\<rparr>) m)"

text \<open>\<^verbatim>\<open>for (let day = earliest; day <= latest; day = addDays(day, 1))\<close>, with the
  period of a day, the test for a completion on that day and the detail to record
  as parameters.\<close>

function bucketLoop ::
  "(Date \<Rightarrow> int) \<Rightarrow> (Date \<Rightarrow> bool) \<Rightarrow> (Date \<Rightarrow> 'a \<Rightarrow> 'a) \<Rightarrow> 'a \<Rightarrow> Date \<Rightarrow> Date
     \<Rightarrow> 'a Bucket jsobj \<Rightarrow> 'a Bucket jsobj" where
  "bucketLoop periodOf completed push blank day latest m =
     (if day \<le> latest
      then bucketLoop periodOf completed push blank (addDays day 1) latest
             (addToBucket (periodOf day) (if completed day then 1 else 0) (push day) blank m)
      else m)"
  by pat_completeness auto
termination
  by (relation "measure (\<lambda>(periodOf, completed, push, blank, day, latest, m).
        nat (latest - day + 1))")
     (auto simp: addDays_def msPerDay_def)

declare bucketLoop.simps [simp del]

text \<open>\<^verbatim>\<open>if (!map[i]) map[i] = { i, level: 0 }\<close>: a bucket object is never falsy, so
  the test is on the presence of the key.\<close>

definition ensureBucket :: "int \<Rightarrow> 'a \<Rightarrow> 'a Bucket jsobj \<Rightarrow> 'a Bucket jsobj" where
  "ensureBucket i blank m =
     (case map_of m i of
        None \<Rightarrow> objSet i \<lparr>period = i, level = 0, detail = blank\<rparr> m
      | Some b \<Rightarrow> m)"

text \<open>\<^verbatim>\<open>for (let i = 1; i <= totalPeriods; i++)\<close> over that statement.\<close>

function fillLoop :: "int \<Rightarrow> int \<Rightarrow> 'a \<Rightarrow> 'a Bucket jsobj \<Rightarrow> 'a Bucket jsobj" where
  "fillLoop i totalPeriods blank m =
     (if i \<le> totalPeriods
      then fillLoop (i + 1) totalPeriods blank (ensureBucket i blank m)
      else m)"
  by pat_completeness auto
termination
  by (relation "measure (\<lambda>(i, totalPeriods, blank, m). nat (totalPeriods - i + 1))") auto

declare fillLoop.simps [simp del]

text \<open>\<^verbatim>\<open>parsedDates.reduce((a, b) => (a < b ? a : b))\<close> and its mirror image, on a
  list with first element \<open>first\<close>.\<close>

definition earliestOf :: "Date \<Rightarrow> Date list \<Rightarrow> Date" where
  "earliestOf first rest = foldl (\<lambda>a b. if a < b then a else b) first rest"

definition latestOf :: "Date \<Rightarrow> Date list \<Rightarrow> Date" where
  "latestOf first rest = foldl (\<lambda>a b. if a > b then a else b) first rest"

text \<open>\<^verbatim>\<open>data.some((date) => format(parseISO(date), "yyyy-MM-dd") === strDay)\<close>.\<close>

definition completedOn :: "int \<Rightarrow> Date list \<Rightarrow> Date \<Rightarrow> bool" where
  "completedOn tz parsedDates day =
     list_ex (\<lambda>date. format tz date = format tz day) parsedDates"

text \<open>\<^verbatim>\<open>data.some((date) => isSameDay(parseISO(date), day))\<close>.\<close>

definition sameDayIn :: "int \<Rightarrow> Date list \<Rightarrow> Date \<Rightarrow> bool" where
  "sameDayIn tz parsedDates day = list_ex (\<lambda>date. isSameDay tz date day) parsedDates"

text \<open>
  The body of each of the seven bucketers after \<^verbatim>\<open>data.map((date) => parseISO(date))\<close>,
  on the time values of a non-empty list (\<open>first\<close> and \<open>rest\<close>).
\<close>

definition dailyBuckets :: "int \<Rightarrow> Date \<Rightarrow> Date list \<Rightarrow> string list Bucket list" where
  "dailyBuckets tz first rest =
     (let parsedDates = first # rest;
         earliest = startOfYear tz (earliestOf first rest);
         latest = endOfYear tz (latestOf first rest);
         weeksMap = bucketLoop (getWeek tz) (completedOn tz parsedDates)
                      (\<lambda>day days. days @ [format tz day]) [] earliest latest [];
         totalWeeks = getWeek tz latest
      in Object_values (fillLoop 1 totalWeeks [] weeksMap))"

definition weeklyBuckets :: "int \<Rightarrow> Date \<Rightarrow> Date list \<Rightarrow> unit Bucket list" where
  "weeklyBuckets tz first rest =
     (let parsedDates = first # rest;
         earliest = startOfYear tz (earliestOf first rest);
         latest = endOfYear tz (latestOf first rest);
         weeksMap = bucketLoop (getWeek tz) (completedOn tz parsedDates)
                      (\<lambda>day u. u) () earliest latest [];
         totalWeeks = getWeek tz latest
      in Object_values (fillLoop 1 totalWeeks () weeksMap))"

definition biWeeklyBuckets :: "int \<Rightarrow> Date \<Rightarrow> Date list \<Rightarrow> int list Bucket list" where
  "biWeeklyBuckets tz first rest =
     (let parsedDates = first # rest;
         earliest = startOfYear tz (earliestOf first rest);
         latest = endOfYear tz (latestOf first rest);
         biWeeksMap = bucketLoop (\<lambda>day. ceilHalf (getWeek tz day))
                        (sameDayIn tz parsedDates)
                        (\<lambda>day weeks.
                           let weekOfYear = getWeek tz day
                           in if weekOfYear \<in> set weeks then weeks
                              else weeks @ [weekOfYear])
                        [] earliest latest [];
         totalBiWeeks = ceilHalf (getWeek tz latest)
      in Object_values (fillLoop 1 totalBiWeeks [] biWeeksMap))"

definition monthlyBuckets :: "int \<Rightarrow> Date \<Rightarrow> Date list \<Rightarrow> unit Bucket list" where
  "monthlyBuckets tz first rest =
     (let parsedDates = first # rest;
         earliest = startOfYear tz (earliestOf first rest);
         latest = endOfYear tz (latestOf first rest);
         monthsMap = bucketLoop (\<lambda>day. getMonth tz day + 1)
                       (completedOn tz parsedDates) (\<lambda>day u. u) () earliest latest []
      in Object_values (fillLoop 1 12 () monthsMap))"

definition quarterlyBuckets :: "int \<Rightarrow> Date \<Rightarrow> Date list \<Rightarrow> unit Bucket list" where
  "quarterlyBuckets tz first rest =
     (let parsedDates = first # rest;
         earliest = startOfYear tz (earliestOf first rest);
         latest = endOfYear tz (latestOf first rest);
         quartersMap = bucketLoop (getQuarter tz)
                         (completedOn tz parsedDates) (\<lambda>day u. u) () earliest latest []
      in Object_values (fillLoop 1 4 () quartersMap))"

definition semesterlyBuckets :: "int \<Rightarrow> Date \<Rightarrow> Date list \<Rightarrow> unit Bucket list" where
  "semesterlyBuckets tz first rest =
     (let parsedDates = first # rest;
         earliest = startOfYear tz (earliestOf first rest);
         latest = endOfYear tz (latestOf first rest);
         semestersMap = bucketLoop (\<lambda>day. if getMonth tz day < 6 then 1 else 2)
                          (completedOn tz parsedDates) (\<lambda>day u. u) () earliest latest []
      in Object_values (fillLoop 1 2 () semestersMap))"

definition yearlyBuckets :: "int \<Rightarrow> Date \<Rightarrow> Date list \<Rightarrow> unit Bucket list" where
  "yearlyBuckets tz first rest =
     (let parsedDates = first # rest;
         earliest = earliestOf first rest;
         latest = latestOf first rest;
         yearsMap = bucketLoop (getYear tz) (completedOn tz parsedDates)
                      (\<lambda>day u. u) () earliest latest []
      in Object_values yearsMap)"

text \<open>
  The seven bucketers on strings. Each returns \<open>Some []\<close> on the empty list, and
  \<open>None\<close> when the model of \<^verbatim>\<open>parseISO\<close> does not turn every string into
  a time value (the computation on \<^verbatim>\<open>Invalid Date\<close> is not modelled).
\<close>

definition getDailyData :: "int \<Rightarrow> string list \<Rightarrow> string list Bucket list option" where
  "getDailyData tz data =
     (if data = [] then Some []
      else (case parseAll tz data of
              Some (first # rest) \<Rightarrow> Some (dailyBuckets tz first rest)
            | _ \<Rightarrow> None))"

definition getWeeklyData :: "int \<Rightarrow> string list \<Rightarrow> unit Bucket list option" where
  "getWeeklyData tz data =
     (if data = [] then Some []
      else (case parseAll tz data of
              Some (first # rest) \<Rightarrow> Some (weeklyBuckets tz first rest)
            | _ \<Rightarrow> None))"

definition getBiWeeklyData :: "int \<Rightarrow> string list \<Rightarrow> int list Bucket list option" where
  "getBiWeeklyData tz data =
     (if data = [] then Some []
      else (case parseAll tz data of
              Some (first # rest) \<Rightarrow> Some (biWeeklyBuckets tz first rest)
            | _ \<Rightarrow> None))"

definition getMonthlyData :: "int \<Rightarrow> string list \<Rightarrow> unit Bucket list option" where
  "getMonthlyData tz data =
     (if data = [] then Some []
      else (case parseAll tz data of
              Some (first # rest) \<Rightarrow> Some (monthlyBuckets tz first rest)
            | _ \<Rightarrow> None))"

definition getQuarterlyData :: "int \<Rightarrow> string list \<Rightarrow> unit Bucket list option" where
  "getQuarterlyData tz data =
     (if data = [] then Some []
      else (case parseAll tz data of
              Some (first # rest) \<Rightarrow> Some (quarterlyBuckets tz first rest)
            | _ \<Rightarrow> None))"

definition getSemesterlyData :: "int \<Rightarrow> string list \<Rightarrow> unit Bucket list option" where
  "getSemesterlyData tz data =
     (if data = [] then Some []
      else (case parseAll tz data of
              Some (first # rest) \<Rightarrow> Some (semesterlyBuckets tz first rest)
            | _ \<Rightarrow> None))"

definition getYearlyData :: "int \<Rightarrow> string list \<Rightarrow> unit Bucket list option" where
  "getYearlyData tz data =
     (if data = [] then Some []
      else (case parseAll tz data of
              Some (first # rest) \<Rightarrow> Some (yearlyBuckets tz first rest)
            | _ \<Rightarrow> None))"

section \<open>Time values and local days\<close>

lemma localDay_localMidnight [simp]: "localDay tz (localMidnight tz d) = d"
  by (simp add: localDay_def localMidnight_def msPerDay_def)

lemma localDay_addDays: "localDay tz (addDays t n) = localDay tz t + n"
  by (simp add: localDay_def addDays_def msPerDay_def)

lemma localMidnight_le [simp]: "localMidnight tz a \<le> localMidnight tz b \<longleftrightarrow> a \<le> b"
  by (simp add: localMidnight_def msPerDay_def)

lemma localMidnight_less [simp]: "localMidnight tz a < localMidnight tz b \<longleftrightarrow> a < b"
  by (simp add: localMidnight_def msPerDay_def)

lemma localMidnight_eq [simp]: "localMidnight tz a = localMidnight tz b \<longleftrightarrow> a = b"
  by (simp add: localMidnight_def msPerDay_def)

lemma isConsecutive_DAILY:
  "isConsecutive tz a b DAILY = (localDay tz b = localDay tz a + 1)"
  by (auto simp: isConsecutive_def isSameDay_def localDay_addDays)

lemma isValidStreak_DAILY:
  "isValidStreak tz l t DAILY =
     (localDay tz l = localDay tz t \<or> localDay tz l + 1 = localDay tz t)"
  by (auto simp: isValidStreak_def isSameDay_def localDay_addDays)

lemmas parse_simps = parseISO_def parseDate_def parseTime_def
  parseTimezone_def validateTime_def isDateTimeDelimiter_def startsTimezone_def digitVal_def
  validateDate_def daysInMonth_def InLeapYear_def MakeDay_def DayFromYear_def monthStart_def
  leapDay_def

lemmas field_simps' = getYear_def getMonth_def getDate_def YearFromDay_def MonthFromDay_def
  DateFromDay_def DayWithinYear_def DayFromYear_def leapDay_def InLeapYear_def monthStart_def

section \<open>Streak loop invariants\<close>

text \<open>The loop keeps \<open>1 \<le> streak \<le> longestStreak\<close>, never lowers \<open>longestStreak\<close>, and
  raises it by at most one for each date it reads.\<close>

lemma streakLoop_bounds:
  "streakLoop tz f prev ds (s, l) = (s', l') \<Longrightarrow> 1 \<le> s \<Longrightarrow> s \<le> l \<Longrightarrow>
   1 \<le> s' \<and> s' \<le> l' \<and> l \<le> l' \<and> l' \<le> max l (s + int (length ds))"
proof (induction ds arbitrary: prev s l)
  case Nil
  then show ?case by simp
next
  case (Cons d ds)
  show ?case
  proof (cases "isConsecutive tz prev d f")
    case True
    with Cons.prems have "streakLoop tz f d ds (s + 1, max l (s + 1)) = (s', l')" by simp
    moreover have "1 \<le> s + 1" "s + 1 \<le> max l (s + 1)" using Cons.prems by auto
    ultimately have "1 \<le> s' \<and> s' \<le> l' \<and> max l (s + 1) \<le> l' \<and>
        l' \<le> max (max l (s + 1)) (s + 1 + int (length ds))"
      by (rule Cons.IH)
    then show ?thesis by auto
  next
    case False
    with Cons.prems have "streakLoop tz f d ds (1, l) = (s', l')" by simp
    moreover have "(1::int) \<le> 1" "1 \<le> l" using Cons.prems by auto
    ultimately have "1 \<le> s' \<and> s' \<le> l' \<and> l \<le> l' \<and> l' \<le> max l (1 + int (length ds))"
      by (rule Cons.IH)
    then show ?thesis using Cons.prems by auto
  qed
qed

text \<open>When no two neighbours are consecutive the loop leaves \<open>longestStreak\<close> as it
  was; when two neighbours are, \<open>longestStreak\<close> ends at 2 or more.\<close>

lemma streakLoop_no_pair:
  "\<forall>(a, b) \<in> set (zip (prev # ds) ds). \<not> isConsecutive tz a b f \<Longrightarrow>
   snd (streakLoop tz f prev ds (s, l)) = l"
  by (induction ds arbitrary: prev s) auto

lemma streakLoop_some_pair:
  "\<exists>(a, b) \<in> set (zip (prev # ds) ds). isConsecutive tz a b f \<Longrightarrow> 1 \<le> s \<Longrightarrow> s \<le> l \<Longrightarrow>
   2 \<le> snd (streakLoop tz f prev ds (s, l))"
proof (induction ds arbitrary: prev s l)
  case Nil
  then show ?case by simp
next
  case (Cons d ds)
  show ?case
  proof (cases "isConsecutive tz prev d f")
    case True
    obtain s' l' where r: "streakLoop tz f d ds (s + 1, max l (s + 1)) = (s', l')"
      by (cases "streakLoop tz f d ds (s + 1, max l (s + 1))") auto
    have "1 \<le> s + 1" "s + 1 \<le> max l (s + 1)" using Cons.prems by auto
    from streakLoop_bounds [OF r this] have "max l (s + 1) \<le> l'" by simp
    with Cons.prems(2) have "2 \<le> l'" by simp
    with True r show ?thesis by simp
  next
    case False
    with Cons.prems(1) have "\<exists>(a, b) \<in> set (zip (d # ds) ds). isConsecutive tz a b f"
      by auto
    moreover have "(1::int) \<le> 1" "1 \<le> l" using Cons.prems by auto
    ultimately have "2 \<le> snd (streakLoop tz f d ds (1, l))" by (rule Cons.IH)
    with False show ?thesis by simp
  qed
qed

lemma parseAll_Nil_iff: "parseAll tz ss = Some [] \<longleftrightarrow> ss = []"
  by (cases ss) (auto split: option.splits)

lemma parseAll_Some_iff:
  "(\<exists>ds. parseAll tz ss = Some ds) \<longleftrightarrow> (\<forall>s \<in> set ss. parseISO tz s \<noteq> None)"
  by (induction ss) (auto split: option.splits)

lemma streaksOfDates_bounds:
  assumes "ds \<noteq> []"
  shows "1 \<le> record_streak (streaksOfDates clock ds f) \<and>
         record_streak (streaksOfDates clock ds f) \<le> int (length ds) \<and>
         0 \<le> current (streaksOfDates clock ds f) \<and>
         current (streaksOfDates clock ds f) \<le> record_streak (streaksOfDates clock ds f) \<and>
         (record_streak (streaksOfDates clock ds f) = 1 \<longleftrightarrow>
          (\<forall>(a, b) \<in> set (zip (sort ds) (tl (sort ds))).
             \<not> isConsecutive (tzOffset clock) a b f))"
proof -
  from assms have "sort ds \<noteq> []" by (metis length_sort length_0_conv)
  then obtain x xs where sx: "sort ds = x # xs" by (cases "sort ds") auto
  then have len: "int (length ds) = 1 + int (length xs)" by (metis length_sort length_Cons of_nat_Suc add.commute)
  obtain s l where sl: "streakLoop (tzOffset clock) f x xs (1, 1) = (s, l)"
    by (cases "streakLoop (tzOffset clock) f x xs (1, 1)") auto
  from streakLoop_bounds [OF sl]
  have b: "1 \<le> s" "s \<le> l" "1 \<le> l" "l \<le> 1 + int (length xs)" by simp_all
  have "l = 1 \<longleftrightarrow>
      (\<forall>(a, b) \<in> set (zip (x # xs) xs). \<not> isConsecutive (tzOffset clock) a b f)"
  proof (cases "\<forall>(a, b) \<in> set (zip (x # xs) xs). \<not> isConsecutive (tzOffset clock) a b f")
    case True
    from streakLoop_no_pair [OF this, of 1 1] sl show ?thesis using True by simp
  next
    case False
    then have "\<exists>(a, b) \<in> set (zip (x # xs) xs). isConsecutive (tzOffset clock) a b f"
      by auto
    from streakLoop_some_pair [OF this, of 1 1] sl show ?thesis using False by simp
  qed
  then show ?thesis using b len by (simp add: streaksOfDates_def sx sl)
qed

lemma parse_20240101: "parseISO tz ''2024-01-01'' = Some (localMidnight tz 19723)"
  by (simp add: parse_simps)

lemma parse_20240102: "parseISO tz ''2024-01-02'' = Some (localMidnight tz 19724)"
  by (simp add: parse_simps)

lemma parse_20240103: "parseISO tz ''2024-01-03'' = Some (localMidnight tz 19725)"
  by (simp add: parse_simps)

lemma parse_20240105: "parseISO tz ''2024-01-05'' = Some (localMidnight tz 19727)"
  by (simp add: parse_simps)

lemma parse_20231215: "parseISO tz ''2023-12-15'' = Some (localMidnight tz 19706)"
  by (simp add: parse_simps)

lemma parse_20240115: "parseISO tz ''2024-01-15'' = Some (localMidnight tz 19737)"
  by (simp add: parse_simps)

lemma MonthFromDay_19706: "MonthFromDay 19706 = 11"
  by (simp add: field_simps')

lemma MonthFromDay_19737: "MonthFromDay 19737 = 0"
  by (simp add: field_simps')

section \<open>Streaks: the claims\<close>

text \<open>
  Claim C7. On the empty list every bucketer returns the empty sequence, and
  \<^verbatim>\<open>calculateStreaks\<close> returns \<^verbatim>\<open>{ current: 0, record: 0 }\<close> for every frequency.
\<close>

theorem empty_input:
  "getDailyData tz [] = Some [] \<and> getWeeklyData tz [] = Some [] \<and>
   getBiWeeklyData tz [] = Some [] \<and> getMonthlyData tz [] = Some [] \<and>
   getQuarterlyData tz [] = Some [] \<and> getSemesterlyData tz [] = Some [] \<and>
   getYearlyData tz [] = Some [] \<and>
   calculateStreaks clock [] frequency = Some \<lparr>current = 0, record_streak = 0\<rparr>"
  by (simp add: getDailyData_def getWeeklyData_def getBiWeeklyData_def getMonthlyData_def
      getQuarterlyData_def getSemesterlyData_def getYearlyData_def calculateStreaks_def)

text \<open>
  Claim C8. On a frequency that is none of the eight members, \<^verbatim>\<open>handleDisable\<close>,
  \<^verbatim>\<open>isConsecutive\<close> and \<^verbatim>\<open>isValidStreak\<close> take the \<^verbatim>\<open>default\<close> branch and return
  \<open>False\<close>, whatever the other arguments are.
\<close>

theorem unrecognized_frequency:
  "handleDisable clock (Unrecognized v) completions = Some False \<and>
   isConsecutive tz prevDate currDate (Unrecognized v) = False \<and>
   isValidStreak tz lastDate today (Unrecognized v) = False"
  by (simp add: handleDisable_def isConsecutive_def isValidStreak_def)

text \<open>
  Claim C9. Under DAILY, the dates 2024-01-01, 2024-01-02, 2024-01-03 have record
  streak 3; the current streak is 3 when today is 2024-01-03 and 0 when today is
  2024-01-10, at any time of the day and in any time zone. Two dates are consecutive
  iff the later is on the day after the earlier, and the streak is valid iff the
  last date is on today's day or the day before.
\<close>

theorem daily_example:
  "(localDay tz n = MakeDay 2024 0 3 \<longrightarrow>
      calculateStreaks \<lparr>tzOffset = tz, now = n\<rparr>
        [''2024-01-01'', ''2024-01-02'', ''2024-01-03''] DAILY
        = Some \<lparr>current = 3, record_streak = 3\<rparr>) \<and>
   (localDay tz n = MakeDay 2024 0 10 \<longrightarrow>
      calculateStreaks \<lparr>tzOffset = tz, now = n\<rparr>
        [''2024-01-01'', ''2024-01-02'', ''2024-01-03''] DAILY
        = Some \<lparr>current = 0, record_streak = 3\<rparr>) \<and>
   isConsecutive tz a b DAILY = (localDay tz b = localDay tz a + 1) \<and>
   isValidStreak tz l n DAILY = (localDay tz l = localDay tz n \<or> localDay tz l + 1 = localDay tz n)"
  by (simp add: calculateStreaks_def parse_20240101 parse_20240102 parse_20240103
      streaksOfDates_def isConsecutive_DAILY isValidStreak_DAILY
      MakeDay_def DayFromYear_def monthStart_def)

theorem daily_example_witness:
  "localDay 0 (localMidnight 0 (MakeDay 2024 0 3) + 43200000) = MakeDay 2024 0 3 \<and>
   calculateStreaks \<lparr>tzOffset = 0, now = localMidnight 0 (MakeDay 2024 0 3) + 43200000\<rparr>
        [''2024-01-01'', ''2024-01-02'', ''2024-01-03''] DAILY
        = Some \<lparr>current = 3, record_streak = 3\<rparr> \<and>
   localDay 0 (localMidnight 0 (MakeDay 2024 0 10) + 43200000) = MakeDay 2024 0 10 \<and>
   calculateStreaks \<lparr>tzOffset = 0, now = localMidnight 0 (MakeDay 2024 0 10) + 43200000\<rparr>
        [''2024-01-01'', ''2024-01-02'', ''2024-01-03''] DAILY
        = Some \<lparr>current = 0, record_streak = 3\<rparr>"
proof -
  have a: "localDay 0 (localMidnight 0 (MakeDay 2024 0 3) + 43200000) = MakeDay 2024 0 3"
    by (simp add: localDay_def localMidnight_def msPerDay_def)
  have b: "localDay 0 (localMidnight 0 (MakeDay 2024 0 10) + 43200000) = MakeDay 2024 0 10"
    by (simp add: localDay_def localMidnight_def msPerDay_def)
  show ?thesis
    using a b
      daily_example [of 0 "localMidnight 0 (MakeDay 2024 0 3) + 43200000"]
      daily_example [of 0 "localMidnight 0 (MakeDay 2024 0 10) + 43200000"]
    by blast
qed

text \<open>
  Claim C4. Under MONTHLY the adjacency test compares the 0-based months and nothing
  else: for 2023-12-15 and 2024-01-15 it compares 11 + 1 with 0, the pair is not
  consecutive, and the record streak stays 1.
\<close>

theorem monthly_wraparound:
  "parseISO tz ''2023-12-15'' = Some (localMidnight tz (MakeDay 2023 11 15)) \<and>
   parseISO tz ''2024-01-15'' = Some (localMidnight tz (MakeDay 2024 0 15)) \<and>
   getMonth tz (localMidnight tz (MakeDay 2023 11 15)) = 11 \<and>
   getMonth tz (localMidnight tz (MakeDay 2024 0 15)) = 0 \<and>
   isConsecutive tz prevDate currDate MONTHLY
     = (getMonth tz prevDate + 1 = getMonth tz currDate) \<and>
   isConsecutive tz (localMidnight tz (MakeDay 2023 11 15))
     (localMidnight tz (MakeDay 2024 0 15)) MONTHLY = False \<and>
   map_option record_streak
     (calculateStreaks \<lparr>tzOffset = tz, now = n\<rparr> [''2023-12-15'', ''2024-01-15''] MONTHLY)
     = Some 1"
proof -
  have d1: "MakeDay 2023 11 15 = 19706" and d2: "MakeDay 2024 0 15 = 19737"
    by (simp_all add: parse_simps)
  have nc: "isConsecutive tz (localMidnight tz 19706) (localMidnight tz 19737) MONTHLY = False"
    by (simp add: isConsecutive_def getMonth_def MonthFromDay_19706 MonthFromDay_19737)
  show ?thesis
    by (simp add: d1 d2 parse_20231215 parse_20240115 nc calculateStreaks_def
        streaksOfDates_def getMonth_def MonthFromDay_19706 MonthFromDay_19737)
      (simp add: isConsecutive_def getMonth_def)
qed

text \<open>
  Claim C10. For every non-empty list of dates and every frequency, also an
  unrecognized one, the streak that \<^verbatim>\<open>calculateStreaks\<close> computes has a record of at
  least 1 and at most the number of dates, and a current value between 0 and the
  record. The record is 1 exactly when no two neighbours of the sorted dates are
  consecutive. (The dates are time values; \<^verbatim>\<open>calculateStreaks\<close> computes this streak
  on strings that \<^verbatim>\<open>parseISO\<close> turns into them.)
\<close>

theorem streak_bounds:
  assumes "dates \<noteq> []"
  shows "1 \<le> record_streak (streaksOfDates clock dates frequency) \<and>
         record_streak (streaksOfDates clock dates frequency) \<le> int (length dates) \<and>
         0 \<le> current (streaksOfDates clock dates frequency) \<and>
         current (streaksOfDates clock dates frequency)
           \<le> record_streak (streaksOfDates clock dates frequency) \<and>
         (record_streak (streaksOfDates clock dates frequency) = 1 \<longleftrightarrow>
          (\<forall>(a, b) \<in> set (zip (sort dates) (tl (sort dates))).
             \<not> isConsecutive (tzOffset clock) a b frequency)) \<and>
         (parseAll (tzOffset clock) strings = Some dates \<longrightarrow>
          calculateStreaks clock strings frequency
            = Some (streaksOfDates clock dates frequency))"
proof -
  have "parseAll (tzOffset clock) strings = Some dates \<longrightarrow>
      calculateStreaks clock strings frequency = Some (streaksOfDates clock dates frequency)"
    using assms by (auto simp: calculateStreaks_def)
  with streaksOfDates_bounds [OF assms, of clock frequency] show ?thesis by blast
qed

theorem streak_bounds_witness:
  "[localMidnight 0 19723, localMidnight 0 19727, localMidnight 0 19725] \<noteq> [] \<and>
   parseAll 0 [''2024-01-01'', ''2024-01-05'', ''2024-01-03''] =
     Some [localMidnight 0 19723, localMidnight 0 19727, localMidnight 0 19725] \<and>
   sort [localMidnight 0 19723, localMidnight 0 19727, localMidnight 0 19725] =
     [localMidnight 0 19723, localMidnight 0 19725, localMidnight 0 19727] \<and>
   \<not> isConsecutive 0 (localMidnight 0 19723) (localMidnight 0 19725) DAILY \<and>
   \<not> isConsecutive 0 (localMidnight 0 19725) (localMidnight 0 19727) DAILY \<and>
   record_streak (streaksOfDates \<lparr>tzOffset = 0, now = localMidnight 0 19727 + 43200000\<rparr>
     [localMidnight 0 19723, localMidnight 0 19727, localMidnight 0 19725] DAILY) = 1 \<and>
   0 \<le> current (streaksOfDates \<lparr>tzOffset = 0, now = localMidnight 0 19727 + 43200000\<rparr>
     [localMidnight 0 19723, localMidnight 0 19727, localMidnight 0 19725] DAILY) \<and>
   current (streaksOfDates \<lparr>tzOffset = 0, now = localMidnight 0 19727 + 43200000\<rparr>
     [localMidnight 0 19723, localMidnight 0 19727, localMidnight 0 19725] DAILY) \<le> 1 \<and>
   calculateStreaks \<lparr>tzOffset = 0, now = localMidnight 0 19727 + 43200000\<rparr>
     [''2024-01-01'', ''2024-01-05'', ''2024-01-03''] DAILY =
     Some (streaksOfDates \<lparr>tzOffset = 0, now = localMidnight 0 19727 + 43200000\<rparr>
       [localMidnight 0 19723, localMidnight 0 19727, localMidnight 0 19725] DAILY)"
proof -
  let ?ds = "[localMidnight 0 19723, localMidnight 0 19727, localMidnight 0 19725]"
  let ?clock = "\<lparr>tzOffset = 0, now = localMidnight 0 19727 + 43200000\<rparr>"
  have ne: "?ds \<noteq> []" by simp
  have p: "parseAll 0 [''2024-01-01'', ''2024-01-05'', ''2024-01-03''] = Some ?ds"
    by (simp add: parse_20240101 parse_20240105 parse_20240103)
  have s: "sort ?ds = [localMidnight 0 19723, localMidnight 0 19725, localMidnight 0 19727]"
    by simp
  have n: "\<not> isConsecutive 0 (localMidnight 0 19723) (localMidnight 0 19725) DAILY"
    "\<not> isConsecutive 0 (localMidnight 0 19725) (localMidnight 0 19727) DAILY"
    by (simp_all add: isConsecutive_DAILY)
  have z: "\<forall>(a, b) \<in> set (zip (sort ?ds) (tl (sort ?ds))).
      \<not> isConsecutive (tzOffset ?clock) a b DAILY"
    unfolding s using n by simp
  from streak_bounds [OF ne, of ?clock DAILY "[''2024-01-01'', ''2024-01-05'', ''2024-01-03'']"]
    z p
  have "record_streak (streaksOfDates ?clock ?ds DAILY) = 1"
    "0 \<le> current (streaksOfDates ?clock ?ds DAILY)"
    "current (streaksOfDates ?clock ?ds DAILY) \<le> 1"
    "calculateStreaks ?clock [''2024-01-01'', ''2024-01-05'', ''2024-01-03''] DAILY =
      Some (streaksOfDates ?clock ?ds DAILY)"
    by simp_all
  with ne p s n show ?thesis by blast
qed

text \<open>
  Claim C2, as stated, fails: under DAILY a duplicate of 2024-01-02 inside the chain
  2024-01-01, 2024-01-02, 2024-01-03 lowers the record streak from 3 to 2.
\<close>

theorem duplicate_changes_record:
  "map_option record_streak
     (calculateStreaks \<lparr>tzOffset = 0, now = 0\<rparr>
        [''2024-01-01'', ''2024-01-02'', ''2024-01-02'', ''2024-01-03''] DAILY) = Some 2 \<and>
   map_option record_streak
     (calculateStreaks \<lparr>tzOffset = 0, now = 0\<rparr>
        [''2024-01-01'', ''2024-01-02'', ''2024-01-03''] DAILY) = Some 3"
  by (simp add: calculateStreaks_def parse_20240101 parse_20240102 parse_20240103
      streaksOfDates_def isConsecutive_DAILY)

text \<open>
  Claim C2, amended. Duplicates are not removed, and a pair of equal dates is tested
  like any other pair: it is consecutive under SEMIMONTHLY and SEMSTERLY only. So at
  a duplicate the running streak grows by one under these two frequencies, and is
  reset to 1 under every other frequency.
\<close>

theorem equal_dates_consecutive:
  "isConsecutive tz d d frequency = (frequency = SEMIMONTHLY \<or> frequency = SEMSTERLY) \<and>
   streakLoop tz frequency d (d # rest) (streak, longestStreak) =
     (if frequency = SEMIMONTHLY \<or> frequency = SEMSTERLY
      then streakLoop tz frequency d rest (streak + 1, max longestStreak (streak + 1))
      else streakLoop tz frequency d rest (1, longestStreak))"
proof -
  have "isConsecutive tz d d frequency = (frequency = SEMIMONTHLY \<or> frequency = SEMSTERLY)"
    by (cases frequency) (simp_all add: isConsecutive_def isSameDay_def localDay_addDays)
  then show ?thesis by simp
qed

text \<open>
  Claim C3. With today = 2024-03-10 (noon, UTC) and the single completion 2023-01-05,
  the SEMIMONTHLY branch of \<^verbatim>\<open>handleDisable\<close> returns true, although the completion
  is not in the current month (the MONTHLY branch returns false on the same input):
  the branch compares the halves of the month and never the month or the year.
\<close>

theorem semimonthly_ignores_month:
  "handleDisable \<lparr>tzOffset = 0, now = localMidnight 0 (MakeDay 2024 2 10) + 43200000\<rparr>
     SEMIMONTHLY [''2023-01-05''] = Some True \<and>
   parseISO 0 ''2023-01-05'' = Some (localMidnight 0 (MakeDay 2023 0 5)) \<and>
   isThisMonth \<lparr>tzOffset = 0, now = localMidnight 0 (MakeDay 2024 2 10) + 43200000\<rparr>
     (localMidnight 0 (MakeDay 2023 0 5)) = False \<and>
   handleDisable \<lparr>tzOffset = 0, now = localMidnight 0 (MakeDay 2024 2 10) + 43200000\<rparr>
     MONTHLY [''2023-01-05''] = Some False"
  by code_simp


section \<open>Years\<close>

lemma div_step:
  fixes x c :: int
  assumes "0 < c"
  shows "(x + 1) div c = (if (x + 1) mod c = 0 then x div c + 1 else x div c)"
proof -
  define q r where "q = x div c" and "r = x mod c"
  have x: "x = c * q + r" and r: "0 \<le> r" "r < c"
    using assms by (simp_all add: q_def r_def)
  show ?thesis
  proof (cases "r + 1 = c")
    case True
    then have e: "x + 1 = c * (q + 1) + 0" using x by (simp add: algebra_simps)
    have "(x + 1) div c = q + 1" by (rule int_div_pos_eq [OF e]) (use assms in simp_all)
    moreover have "(x + 1) mod c = 0" by (rule int_mod_pos_eq [OF e]) (use assms in simp_all)
    ultimately show ?thesis by (simp add: q_def)
  next
    case False
    then have lt: "r + 1 < c" using r by simp
    have e: "x + 1 = c * q + (r + 1)" using x by simp
    have "(x + 1) div c = q" by (rule int_div_pos_eq [OF e]) (use r lt in simp_all)
    moreover have "(x + 1) mod c = r + 1" by (rule int_mod_pos_eq [OF e]) (use r lt in simp_all)
    ultimately show ?thesis using r by (simp add: q_def)
  qed
qed

lemma mod_shift: "((y::int) - c * k) mod c = y mod c"
proof -
  have "y - c * k = y + c * (- k)" by simp
  then show ?thesis by (metis mod_mult_self2)
qed

lemma DayFromYear_Suc: "DayFromYear (y + 1) = DayFromYear y + 365 + leapDay y"
proof -
  have a: "(y + 1 - 1969) div 4 = (if y mod 4 = 0 then (y - 1969) div 4 + 1 else (y - 1969) div 4)"
    using div_step [of 4 "y - 1969"] mod_shift [of y 4 492] by (simp add: algebra_simps)
  have b: "(y + 1 - 1901) div 100
      = (if y mod 100 = 0 then (y - 1901) div 100 + 1 else (y - 1901) div 100)"
    using div_step [of 100 "y - 1901"] mod_shift [of y 100 19] by (simp add: algebra_simps)
  have c: "(y + 1 - 1601) div 400
      = (if y mod 400 = 0 then (y - 1601) div 400 + 1 else (y - 1601) div 400)"
    using div_step [of 400 "y - 1601"] mod_shift [of y 400 4] by (simp add: algebra_simps)
  have d1: "y mod 400 = 0 \<Longrightarrow> y mod 100 = 0"
    by (metis dvd_trans mod_eq_0_iff_dvd mult.commute numeral_times_numeral
        semiring_norm(12) semiring_norm(13) dvd_def)
  have d2: "y mod 100 = 0 \<Longrightarrow> y mod 4 = 0"
    by presburger
  show ?thesis
    unfolding DayFromYear_def leapDay_def InLeapYear_def a b c
    using d1 d2 by auto
qed

lemma leapDay_range: "0 \<le> leapDay y \<and> leapDay y \<le> 1"
  by (simp add: leapDay_def)

lemma DayFromYear_add: "DayFromYear y + 365 * int k \<le> DayFromYear (y + int k)"
proof (induction k)
  case 0
  then show ?case by simp
next
  case (Suc k)
  have "y + int (Suc k) = y + int k + 1" by simp
  then have "DayFromYear (y + int (Suc k)) = DayFromYear (y + int k + 1)"
    by (rule arg_cong)
  also have "\<dots> = DayFromYear (y + int k) + 365 + leapDay (y + int k)"
    by (rule DayFromYear_Suc)
  finally show ?case using Suc leapDay_range [of "y + int k"] by simp
qed

lemma DayFromYear_mono: "y \<le> y' \<Longrightarrow> DayFromYear y \<le> DayFromYear y'"
  using DayFromYear_add [of y "nat (y' - y)"] by simp

lemma DayFromYear_less: "y < y' \<Longrightarrow> DayFromYear y + 365 \<le> DayFromYear y'"
proof -
  assume "y < y'"
  then have "int (nat (y' - y)) = y' - y" by simp
  with DayFromYear_add [of y "nat (y' - y)"] \<open>y < y'\<close> show ?thesis by simp
qed

text \<open>The first day of a year is within a day and a half of 365.2425 days per year.\<close>

lemma DayFromYear_parts:
  "\<exists>a b c.
     DayFromYear y = 365 * (y - 1970) + a - b + c \<and>
     100 * (y - 1970) - 200 \<le> 400 * a \<and> 400 * a \<le> 100 * (y - 1970) + 100 \<and>
     4 * (y - 1970) - 120 \<le> 400 * b \<and> 400 * b \<le> 4 * (y - 1970) + 276 \<and>
     (y - 1970) - 30 \<le> 400 * c \<and> 400 * c \<le> (y - 1970) + 369"
proof -
  define n where "n = y - 1970"
  define a ra where "a = (n + 1) div 4" and "ra = (n + 1) mod 4"
  define b rb where "b = (n + 69) div 100" and "rb = (n + 69) mod 100"
  define c rc where "c = (n + 369) div 400" and "rc = (n + 369) mod 400"
  have ea: "n + 1 = 4 * a + ra" "0 \<le> ra" "ra < 4" by (simp_all add: a_def ra_def)
  have eb: "n + 69 = 100 * b + rb" "0 \<le> rb" "rb < 100" by (simp_all add: b_def rb_def)
  have ec: "n + 369 = 400 * c + rc" "0 \<le> rc" "rc < 400" by (simp_all add: c_def rc_def)
  have "DayFromYear y = 365 * n + a - b + c"
    by (simp add: DayFromYear_def n_def a_def b_def c_def)
  moreover have "100 * n - 200 \<le> 400 * a" "400 * a \<le> 100 * n + 100" using ea by linarith+
  moreover have "4 * n - 120 \<le> 400 * b" "400 * b \<le> 4 * n + 276" using eb by linarith+
  moreover have "n - 30 \<le> 400 * c" "400 * c \<le> n + 369" using ec by linarith+
  ultimately show ?thesis unfolding n_def by blast
qed

lemma DayFromYear_lower: "146097 * (y - 1970) - 506 \<le> 400 * DayFromYear y"
proof -
  from DayFromYear_parts [of y] obtain a b c where
    "DayFromYear y = 365 * (y - 1970) + a - b + c"
    "100 * (y - 1970) - 200 \<le> 400 * a" "400 * b \<le> 4 * (y - 1970) + 276"
    "(y - 1970) - 30 \<le> 400 * c"
    by blast
  then show ?thesis by (simp add: algebra_simps)
qed

lemma DayFromYear_upper: "400 * DayFromYear y \<le> 146097 * (y - 1970) + 589"
proof -
  from DayFromYear_parts [of y] obtain a b c where
    "DayFromYear y = 365 * (y - 1970) + a - b + c"
    "400 * a \<le> 100 * (y - 1970) + 100" "4 * (y - 1970) - 120 \<le> 400 * b"
    "400 * c \<le> (y - 1970) + 369"
    by blast
  then show ?thesis by (simp add: algebra_simps)
qed

text \<open>\<open>YearFromDay\<close> meets the definition of \<^verbatim>\<open>YearFromTime\<close> in ECMA-262.\<close>

lemma YearFromDay_bracket:
  "DayFromYear (YearFromDay d) \<le> d \<and> d < DayFromYear (YearFromDay d + 1)"
proof -
  define e r where "e = (400 * d) div 146097" and "r = (400 * d) mod 146097"
  have ed: "400 * d = 146097 * e + r" by (simp add: e_def r_def)
  have er: "0 \<le> r" "r < 146097" by (simp_all add: r_def)
  have "146097 * e + 291688 \<le> 400 * DayFromYear (1970 + e + 2)"
    using DayFromYear_lower [of "1970 + e + 2"] by (simp add: algebra_simps)
  then have up: "d < DayFromYear (1970 + e + 2)"
    using ed er by linarith
  have "400 * DayFromYear (1970 + e - 1) \<le> 146097 * e - 145508"
    using DayFromYear_upper [of "1970 + e - 1"] by (simp add: algebra_simps)
  then have lo: "DayFromYear (1970 + e - 1) \<le> d"
    using ed er by linarith
  have y: "YearFromDay d =
      (if DayFromYear (1970 + e + 1) \<le> d then 1970 + e + 1
       else if DayFromYear (1970 + e) \<le> d then 1970 + e else 1970 + e - 1)"
    by (simp add: YearFromDay_def e_def Let_def)
  show ?thesis
  proof (cases "DayFromYear (1970 + e + 1) \<le> d")
    case True
    then show ?thesis using y up by (simp add: algebra_simps)
  next
    case False
    note F1 = this
    show ?thesis
    proof (cases "DayFromYear (1970 + e) \<le> d")
      case True
      with F1 y show ?thesis by simp
    next
      case False
      with F1 y lo show ?thesis by simp
    qed
  qed
qed

lemma YearFromDay_unique:
  assumes "DayFromYear y \<le> d" and "d < DayFromYear (y + 1)"
  shows "YearFromDay d = y"
proof (rule ccontr)
  assume ne: "YearFromDay d \<noteq> y"
  note b = YearFromDay_bracket [of d]
  show False
  proof (cases "YearFromDay d < y")
    case True
    then have "DayFromYear (YearFromDay d + 1) \<le> DayFromYear y"
      by (intro DayFromYear_mono) simp
    with b assms show False by linarith
  next
    case False
    with ne have "DayFromYear (y + 1) \<le> DayFromYear (YearFromDay d)"
      by (intro DayFromYear_mono) simp
    with b assms show False by linarith
  qed
qed

lemma YearFromDay_mono: "d \<le> d' \<Longrightarrow> YearFromDay d \<le> YearFromDay d'"
proof (rule ccontr)
  assume le: "d \<le> d'" and "\<not> YearFromDay d \<le> YearFromDay d'"
  then have "DayFromYear (YearFromDay d' + 1) \<le> DayFromYear (YearFromDay d)"
    by (intro DayFromYear_mono) simp
  with YearFromDay_bracket [of d] YearFromDay_bracket [of d'] le show False by linarith
qed

lemma YearFromDay_DayFromYear [simp]: "YearFromDay (DayFromYear y) = y"
  by (rule YearFromDay_unique) (use DayFromYear_less [of y "y + 1"] in simp_all)

lemma DayWithinYear_range:
  "0 \<le> DayWithinYear d \<and> DayWithinYear d < 365 + leapDay (YearFromDay d)"
  using YearFromDay_bracket [of d] DayFromYear_Suc [of "YearFromDay d"]
  by (simp add: DayWithinYear_def)

lemma MonthFromDay_range: "0 \<le> MonthFromDay d \<and> MonthFromDay d \<le> 11"
  by (simp add: MonthFromDay_def Let_def)

lemma DateFromDay_range: "1 \<le> DateFromDay d \<and> DateFromDay d \<le> 31"
  using DayWithinYear_range [of d] leapDay_range [of "YearFromDay d"]
  unfolding DateFromDay_def MonthFromDay_def monthStart_def Let_def
  by (auto split: if_splits)

lemma MakeDay_fields: "MakeDay (YearFromDay d) (MonthFromDay d) (DateFromDay d) = d"
  by (simp add: MakeDay_def DateFromDay_def DayWithinYear_def)


section \<open>Objects with integer keys\<close>

lemma objSet_keys: "set (map fst (objSet k v m)) = insert k (set (map fst m))"
proof (induction k v m rule: objSet.induct)
  case (1 k v)
  then show ?case by simp
next
  case (2 k v k' v' rest)
  then show ?case by (cases "k < k'"; cases "k = k'") auto
qed

lemma objSet_sorted:
  "sorted_wrt (<) (map fst m) \<Longrightarrow> sorted_wrt (<) (map fst (objSet k v m))"
proof (induction m)
  case Nil
  then show ?case by simp
next
  case (Cons p m)
  obtain k' v' where p: "p = (k', v')" by (cases p)
  from Cons.prems have sm: "sorted_wrt (<) (map fst m)" and gt: "\<forall>x \<in> set (map fst m). k' < x"
    by (auto simp: p)
  show ?case
  proof (cases "k < k'")
    case True
    with Cons.prems show ?thesis by (auto simp: p)
  next
    case False
    note nlt = this
    show ?thesis
    proof (cases "k = k'")
      case True
      with Cons.prems show ?thesis by (auto simp: p)
    next
      case False
      with nlt have "k' < k" by simp
      moreover have "sorted_wrt (<) (map fst (objSet k v m))" using sm by (rule Cons.IH)
      ultimately show ?thesis using gt nlt False
        by (auto simp: p objSet_keys simp del: set_map)
    qed
  qed
qed

lemma objSet_entries:
  "sorted_wrt (<) (map fst m) \<Longrightarrow>
   set (objSet k v m) = insert (k, v) {e \<in> set m. fst e \<noteq> k}"
proof (induction m)
  case Nil
  then show ?case by simp
next
  case (Cons p m)
  obtain k' v' where p: "p = (k', v')" by (cases p)
  from Cons.prems have sm: "sorted_wrt (<) (map fst m)" and gt: "\<forall>e \<in> set m. k' < fst e"
    by (auto simp: p)
  have ih: "set (objSet k v m) = insert (k, v) {e \<in> set m. fst e \<noteq> k}"
    using sm by (rule Cons.IH)
  show ?case using gt ih by (auto simp: p)
qed

lemma objSet_levels:
  "sorted_wrt (<) (map fst m) \<Longrightarrow>
   sum_list (map (\<lambda>e. level (snd e)) (objSet k v m)) =
     sum_list (map (\<lambda>e. level (snd e)) m)
       - (case map_of m k of None \<Rightarrow> 0 | Some b \<Rightarrow> level b) + level v"
proof (induction m)
  case Nil
  then show ?case by simp
next
  case (Cons p m)
  obtain k' v' where p: "p = (k', v')" by (cases p)
  from Cons.prems have sm: "sorted_wrt (<) (map fst m)" and gt: "\<forall>x \<in> set (map fst m). k' < x"
    by (auto simp: p)
  show ?case
  proof (cases "k < k'")
    case True
    with gt have "k \<notin> set (map fst m)" by auto
    then have "map_of m k = None" by (simp add: map_of_eq_None_iff)
    with True show ?thesis by (simp add: p)
  next
    case False
    then show ?thesis using Cons.IH [OF sm] by (auto simp: p)
  qed
qed

lemma map_of_period:
  "map_of m k = Some b \<Longrightarrow> \<forall>e \<in> set m. period (snd e) = fst e \<Longrightarrow> period b = k"
  by (auto dest!: map_of_SomeD)

lemma addToBucket_keys:
  "set (map fst (addToBucket k lv push blank m)) = insert k (set (map fst m))"
  by (simp add: addToBucket_def Let_def objSet_keys del: set_map)

lemma addToBucket_sorted:
  "sorted_wrt (<) (map fst m) \<Longrightarrow>
   sorted_wrt (<) (map fst (addToBucket k lv push blank m))"
  by (simp add: addToBucket_def Let_def objSet_sorted)

lemma addToBucket_period:
  assumes "sorted_wrt (<) (map fst m)" and "\<forall>e \<in> set m. period (snd e) = fst e"
  shows "\<forall>e \<in> set (addToBucket k lv push blank m). period (snd e) = fst e"
proof (cases "map_of m k")
  case None
  then show ?thesis using assms by (auto simp: addToBucket_def Let_def objSet_entries)
next
  case (Some b)
  with assms(2) have "period b = k" using map_of_period by blast
  then show ?thesis using assms Some by (auto simp: addToBucket_def Let_def objSet_entries)
qed

lemma addToBucket_levels:
  "sorted_wrt (<) (map fst m) \<Longrightarrow>
   sum_list (map (\<lambda>e. level (snd e)) (addToBucket k lv push blank m)) =
     sum_list (map (\<lambda>e. level (snd e)) m) + lv"
  by (cases "map_of m k") (simp_all add: addToBucket_def Let_def objSet_levels)

section \<open>The loops as folds over the days of the window\<close>

lemma addDays_localMidnight: "addDays (localMidnight tz d) 1 = localMidnight tz (d + 1)"
  by (simp add: addDays_def localMidnight_def algebra_simps)

lemma bucketLoop_fold:
  assumes "0 \<le> r" and "r < msPerDay"
  shows "bucketLoop periodOf completed push blank (localMidnight tz d0)
           (localMidnight tz d1 + r) m =
         foldl (\<lambda>m d. addToBucket (periodOf (localMidnight tz d))
                   (if completed (localMidnight tz d) then 1 else 0)
                   (push (localMidnight tz d)) blank m) m [d0..d1]"
proof (induction "nat (d1 + 1 - d0)" arbitrary: d0 m)
  case 0
  then have gt: "d1 < d0" by simp
  then have "d1 + 1 \<le> d0" by simp
  then have "(d1 + 1) * msPerDay \<le> d0 * msPerDay" by (simp add: msPerDay_def)
  then have "\<not> localMidnight tz d0 \<le> localMidnight tz d1 + r"
    using assms by (simp add: localMidnight_def algebra_simps)
  then show ?case using gt by (simp add: bucketLoop.simps [of _ _ _ _ "localMidnight tz d0"])
next
  case (Suc n)
  then have le: "d0 \<le> d1" and n: "n = nat (d1 + 1 - (d0 + 1))" by simp_all
  have "localMidnight tz d0 \<le> localMidnight tz d1 + r"
    using le assms by (simp add: localMidnight_def msPerDay_def)
  then show ?case
    using Suc.hyps(1) [OF n] le
    by (simp add: bucketLoop.simps [of _ _ _ _ "localMidnight tz d0"]
        addDays_localMidnight upto_rec1 [of d0 d1])
qed

lemma fillLoop_fold:
  "fillLoop i totalPeriods blank m = foldl (\<lambda>m i. ensureBucket i blank m) m [i..totalPeriods]"
proof (induction "nat (totalPeriods + 1 - i)" arbitrary: i m)
  case 0
  then show ?case by (simp add: fillLoop.simps [of i])
next
  case (Suc n)
  then have le: "i \<le> totalPeriods" and n: "n = nat (totalPeriods + 1 - (i + 1))" by simp_all
  show ?case
    using Suc.hyps(1) [OF n] le
    by (simp add: fillLoop.simps [of i] upto_rec1 [of i totalPeriods])
qed

text \<open>What a run of loop bodies does to a well-formed object: its keys stay in
  ascending order, every bucket carries its key, the keys gain the periods of the
  days, and the levels gain one for every completed day.\<close>

lemma fold_add_sorted:
  "sorted_wrt (<) (map fst m) \<Longrightarrow>
   sorted_wrt (<) (map fst (foldl (\<lambda>m d. addToBucket (p d) (lv d) (push d) blank m) m ds))"
  by (induction ds arbitrary: m) (simp_all add: addToBucket_sorted)

lemma fold_add_period:
  "sorted_wrt (<) (map fst m) \<Longrightarrow> \<forall>e \<in> set m. period (snd e) = fst e \<Longrightarrow>
   \<forall>e \<in> set (foldl (\<lambda>m d. addToBucket (p d) (lv d) (push d) blank m) m ds).
      period (snd e) = fst e"
proof (induction ds arbitrary: m)
  case Nil
  then show ?case by simp
next
  case (Cons d ds)
  show ?case
    using Cons.IH [OF addToBucket_sorted [OF Cons.prems(1)]
        addToBucket_period [OF Cons.prems(1) Cons.prems(2)]]
    by simp
qed

lemma fold_add_keys:
  "set (map fst (foldl (\<lambda>m d. addToBucket (p d) (lv d) (push d) blank m) m ds)) =
   set (map fst m) \<union> p ` set ds"
proof (induction ds arbitrary: m)
  case Nil
  then show ?case by simp
next
  case (Cons d ds)
  show ?case using Cons.IH [of "addToBucket (p d) (lv d) (push d) blank m"]
    by (simp add: addToBucket_keys del: set_map)
qed

lemma fold_add_levels:
  "sorted_wrt (<) (map fst m) \<Longrightarrow>
   sum_list (map (\<lambda>e. level (snd e))
     (foldl (\<lambda>m d. addToBucket (p d) (if c d then 1 else 0) (push d) blank m) m ds)) =
   sum_list (map (\<lambda>e. level (snd e)) m) + int (length (filter c ds))"
proof (induction ds arbitrary: m)
  case Nil
  then show ?case by simp
next
  case (Cons d ds)
  let ?m = "addToBucket (p d) (if c d then 1 else 0) (push d) blank m"
  have "sorted_wrt (<) (map fst ?m)" using Cons.prems by (rule addToBucket_sorted)
  from Cons.IH [OF this]
  have "sum_list (map (\<lambda>e. level (snd e))
     (foldl (\<lambda>m d. addToBucket (p d) (if c d then 1 else 0) (push d) blank m) ?m ds)) =
     sum_list (map (\<lambda>e. level (snd e)) ?m) + int (length (filter c ds))" .
  also have "sum_list (map (\<lambda>e. level (snd e)) ?m)
      = sum_list (map (\<lambda>e. level (snd e)) m) + (if c d then 1 else 0)"
    using Cons.prems by (rule addToBucket_levels)
  finally show ?case by simp
qed

text \<open>The post-pass adds the missing keys with level 0 and changes nothing else.\<close>

lemma ensureBucket_sorted:
  "sorted_wrt (<) (map fst m) \<Longrightarrow> sorted_wrt (<) (map fst (ensureBucket i blank m))"
  by (cases "map_of m i") (simp_all add: ensureBucket_def objSet_sorted)

lemma ensureBucket_period:
  "sorted_wrt (<) (map fst m) \<Longrightarrow> \<forall>e \<in> set m. period (snd e) = fst e \<Longrightarrow>
   \<forall>e \<in> set (ensureBucket i blank m). period (snd e) = fst e"
  by (cases "map_of m i") (auto simp: ensureBucket_def objSet_entries)

lemma ensureBucket_keys:
  "set (map fst (ensureBucket i blank m)) = insert i (set (map fst m))"
proof (cases "map_of m i")
  case None
  then show ?thesis by (simp add: ensureBucket_def objSet_keys del: set_map)
next
  case (Some b)
  then have "i \<in> set (map fst m)" by (metis map_of_eq_None_iff option.distinct(1) set_map)
  with Some show ?thesis by (auto simp: ensureBucket_def)
qed

lemma ensureBucket_levels:
  "sorted_wrt (<) (map fst m) \<Longrightarrow>
   sum_list (map (\<lambda>e. level (snd e)) (ensureBucket i blank m)) =
   sum_list (map (\<lambda>e. level (snd e)) m)"
  by (cases "map_of m i") (simp_all add: ensureBucket_def objSet_levels)

lemma fold_ensure_sorted:
  "sorted_wrt (<) (map fst m) \<Longrightarrow>
   sorted_wrt (<) (map fst (foldl (\<lambda>m i. ensureBucket i blank m) m ks))"
  by (induction ks arbitrary: m) (simp_all add: ensureBucket_sorted)

lemma fold_ensure_period:
  "sorted_wrt (<) (map fst m) \<Longrightarrow> \<forall>e \<in> set m. period (snd e) = fst e \<Longrightarrow>
   \<forall>e \<in> set (foldl (\<lambda>m i. ensureBucket i blank m) m ks). period (snd e) = fst e"
proof (induction ks arbitrary: m)
  case Nil
  then show ?case by simp
next
  case (Cons k ks)
  show ?case
    using Cons.IH [OF ensureBucket_sorted [OF Cons.prems(1)]
        ensureBucket_period [OF Cons.prems(1) Cons.prems(2)]]
    by simp
qed

lemma fold_ensure_keys:
  "set (map fst (foldl (\<lambda>m i. ensureBucket i blank m) m ks)) = set (map fst m) \<union> set ks"
proof (induction ks arbitrary: m)
  case Nil
  then show ?case by simp
next
  case (Cons k ks)
  show ?case using Cons.IH [of "ensureBucket k blank m"]
    by (simp add: ensureBucket_keys del: set_map)
qed

lemma fold_ensure_levels:
  "sorted_wrt (<) (map fst m) \<Longrightarrow>
   sum_list (map (\<lambda>e. level (snd e)) (foldl (\<lambda>m i. ensureBucket i blank m) m ks)) =
   sum_list (map (\<lambda>e. level (snd e)) m)"
proof (induction ks arbitrary: m)
  case Nil
  then show ?case by simp
next
  case (Cons k ks)
  show ?case
    using Cons.IH [OF ensureBucket_sorted [OF Cons.prems]] ensureBucket_levels [OF Cons.prems]
    by simp
qed


section \<open>Parsed dates and the window\<close>

lemma earliestOf_props:
  "earliestOf first rest \<in> set (first # rest) \<and>
   (\<forall>t \<in> set (first # rest). earliestOf first rest \<le> t)"
  unfolding earliestOf_def
proof (induction rest arbitrary: first)
  case Nil
  then show ?case by simp
next
  case (Cons x rest)
  show ?case using Cons [of "if first < x then first else x"] by (auto split: if_splits)
qed

lemma latestOf_props:
  "latestOf first rest \<in> set (first # rest) \<and>
   (\<forall>t \<in> set (first # rest). t \<le> latestOf first rest)"
  unfolding latestOf_def
proof (induction rest arbitrary: first)
  case Nil
  then show ?case by simp
next
  case (Cons x rest)
  show ?case using Cons [of "if first > x then first else x"] by (auto split: if_splits)
qed

lemma localDay_mono: "a \<le> b \<Longrightarrow> localDay tz a \<le> localDay tz b"
  by (simp add: localDay_def msPerDay_def zdiv_mono1)


lemma ascending_range:
  fixes xs :: "int list"
  assumes "sorted_wrt (<) xs" and "set xs = {a..b}"
  shows "xs = [a..b]"
proof -
  from assms(1) have "sorted xs" "distinct xs" by (simp_all add: strict_sorted_iff)
  moreover have "sorted [a..b]" "distinct [a..b]" by simp_all
  moreover have "set xs = set [a..b]" using assms(2) by simp
  ultimately show ?thesis by (metis sorted_distinct_set_unique)
qed

lemma values_period:
  "\<forall>e \<in> set m. period (snd e) = fst e \<Longrightarrow> map period (Object_values m) = map fst m"
  by (simp add: Object_values_def)

lemma values_level:
  "sum_list (map level (Object_values m)) = sum_list (map (\<lambda>e. level (snd e)) m)"
  by (simp add: Object_values_def comp_def)

section \<open>Formatting is injective on the fields\<close>

lemma digitVal_digitChar: "n < 10 \<Longrightarrow> digitVal (digitChar n) = Some n"
  by (simp add: digitVal_def digitChar_def Let_def)

lemma digitVal_dash: "digitVal (CHR ''-'') = None"
  by (simp add: digitVal_def)

lemma digitVal_zero: "digitVal (CHR ''0'') = Some 0"
  by (simp add: digitVal_def)

lemma parseDigits_snoc:
  "parseDigits acc (s @ [c]) =
     (case parseDigits acc s of None \<Rightarrow> None
      | Some v \<Rightarrow> (case digitVal c of None \<Rightarrow> None | Some k \<Rightarrow> Some (10 * v + k)))"
  by (induction s arbitrary: acc) (auto split: option.splits)

lemma parseDigits_natToString: "parseDigits 0 (natToString n) = Some n"
proof (induction n rule: natToString.induct)
  case (1 n)
  show ?case
  proof (cases "n < 10")
    case True
    then show ?thesis by (simp add: natToString.simps [of n] digitVal_digitChar)
  next
    case False
    then have "parseDigits 0 (natToString (n div 10)) = Some (n div 10)" by (rule 1)
    with False show ?thesis
      by (simp add: natToString.simps [of n] parseDigits_snoc digitVal_digitChar)
  qed
qed

lemma natToString_digits: "c \<in> set (natToString n) \<Longrightarrow> digitVal c \<noteq> None"
proof (induction n rule: natToString.induct)
  case (1 n)
  show ?case
  proof (cases "n < 10")
    case True
    with 1(2) show ?thesis by (simp add: natToString.simps [of n] digitVal_digitChar)
  next
    case False
    with 1 show ?thesis
      by (auto simp: natToString.simps [of n] digitVal_digitChar)
  qed
qed

lemma parseDigits_zeros: "parseDigits 0 (replicate k (CHR ''0'') @ s) = parseDigits 0 s"
  by (induction k) (simp_all add: digitVal_zero)

lemma addLeadingZeros_value:
  "0 \<le> n \<Longrightarrow> parseDigits 0 (addLeadingZeros n k) = Some (nat n)"
  by (simp add: addLeadingZeros_def padStart_def parseDigits_zeros parseDigits_natToString)

lemma addLeadingZeros_no_dash:
  assumes "0 \<le> n"
  shows "\<forall>c \<in> set (addLeadingZeros n k). c \<noteq> CHR ''-''"
proof
  fix c assume "c \<in> set (addLeadingZeros n k)"
  with assms have "c = CHR ''0'' \<or> c \<in> set (natToString (nat n))"
    by (auto simp: addLeadingZeros_def padStart_def)
  then have "digitVal c \<noteq> None" using natToString_digits digitVal_zero by auto
  then show "c \<noteq> CHR ''-''" using digitVal_dash by auto
qed

lemma split_at_dash:
  assumes "\<forall>c \<in> set a. c \<noteq> CHR ''-''" and "\<forall>c \<in> set b. c \<noteq> CHR ''-''"
    and "a @ CHR ''-'' # x = b @ CHR ''-'' # y"
  shows "a = b \<and> x = y"
proof -
  have "takeWhile (\<lambda>c. c \<noteq> CHR ''-'') (a @ CHR ''-'' # x) = a"
    using assms(1) by (simp add: takeWhile_tail)
  moreover have "takeWhile (\<lambda>c. c \<noteq> CHR ''-'') (b @ CHR ''-'' # y) = b"
    using assms(2) by (simp add: takeWhile_tail)
  ultimately have "a = b" using assms(3) by simp
  with assms(3) show ?thesis by simp
qed

lemma addLeadingZeros_inj:
  assumes "0 \<le> a" and "0 \<le> b" and "addLeadingZeros a k = addLeadingZeros b k"
  shows "a = b"
proof -
  have "Some (nat a) = Some (nat b)"
    using addLeadingZeros_value [OF assms(1), of k] addLeadingZeros_value [OF assms(2), of k]
      assms(3) by simp
  with assms(1,2) show ?thesis by simp
qed

text \<open>The year that \<^verbatim>\<open>yyyy\<close> prints.\<close>

lemma format_fields:
  assumes "format tz a = format tz b"
  shows "(if getYear tz a > 0 then getYear tz a else 1 - getYear tz a) =
         (if getYear tz b > 0 then getYear tz b else 1 - getYear tz b) \<and>
         getMonth tz a = getMonth tz b \<and> getDate tz a = getDate tz b"
proof -
  let ?ya = "if getYear tz a > 0 then getYear tz a else 1 - getYear tz a"
  let ?yb = "if getYear tz b > 0 then getYear tz b else 1 - getYear tz b"
  have ya: "0 \<le> ?ya" and yb: "0 \<le> ?yb" by simp_all
  have ma: "0 \<le> getMonth tz a + 1" and mb: "0 \<le> getMonth tz b + 1"
    using MonthFromDay_range by (simp_all add: getMonth_def)
  have da: "0 \<le> getDate tz a" and db: "0 \<le> getDate tz b"
    using DateFromDay_range [of "localDay tz a"] DateFromDay_range [of "localDay tz b"]
    by (simp_all add: getDate_def)
  have eq: "addLeadingZeros ?ya 4 @ CHR ''-'' #
        (addLeadingZeros (getMonth tz a + 1) 2 @ CHR ''-'' # addLeadingZeros (getDate tz a) 2) =
      addLeadingZeros ?yb 4 @ CHR ''-'' #
        (addLeadingZeros (getMonth tz b + 1) 2 @ CHR ''-'' # addLeadingZeros (getDate tz b) 2)"
    using assms by (simp add: format_def Let_def)
  from split_at_dash [OF addLeadingZeros_no_dash [OF ya] addLeadingZeros_no_dash [OF yb] eq]
  have y: "addLeadingZeros ?ya 4 = addLeadingZeros ?yb 4"
    and rest: "addLeadingZeros (getMonth tz a + 1) 2 @ CHR ''-'' # addLeadingZeros (getDate tz a) 2
      = addLeadingZeros (getMonth tz b + 1) 2 @ CHR ''-'' # addLeadingZeros (getDate tz b) 2"
    by simp_all
  from split_at_dash [OF addLeadingZeros_no_dash [OF ma] addLeadingZeros_no_dash [OF mb] rest]
  have m: "addLeadingZeros (getMonth tz a + 1) 2 = addLeadingZeros (getMonth tz b + 1) 2"
    and d: "addLeadingZeros (getDate tz a) 2 = addLeadingZeros (getDate tz b) 2"
    by simp_all
  have "?ya = ?yb" using ya yb y by (rule addLeadingZeros_inj)
  moreover have "getMonth tz a + 1 = getMonth tz b + 1" using ma mb m by (rule addLeadingZeros_inj)
  moreover have "getDate tz a = getDate tz b" using da db d by (rule addLeadingZeros_inj)
  ultimately show ?thesis by simp
qed

lemma format_localDay: "localDay tz a = localDay tz b \<Longrightarrow> format tz a = format tz b"
  by (simp add: format_def getYear_def getMonth_def getDate_def)

lemma format_same_era:
  assumes "format tz a = format tz b"
    and "(0 < getYear tz a \<and> 0 < getYear tz b) \<or> (getYear tz a \<le> 0 \<and> getYear tz b \<le> 0)"
  shows "localDay tz a = localDay tz b"
proof -
  from format_fields [OF assms(1)] assms(2)
  have "getYear tz a = getYear tz b" "getMonth tz a = getMonth tz b" "getDate tz a = getDate tz b"
    by (auto split: if_splits)
  then have "MakeDay (YearFromDay (localDay tz a)) (MonthFromDay (localDay tz a))
      (DateFromDay (localDay tz a)) =
    MakeDay (YearFromDay (localDay tz b)) (MonthFromDay (localDay tz b))
      (DateFromDay (localDay tz b))"
    by (simp add: getYear_def getMonth_def getDate_def)
  then show ?thesis by (simp add: MakeDay_fields)
qed


section \<open>Dates of the examples\<close>













lemma localDay_within:
  "0 \<le> r \<Longrightarrow> r < msPerDay \<Longrightarrow> localDay tz (localMidnight tz d + r) = d"
  by (simp add: localDay_def localMidnight_def msPerDay_def)

lemma parse_20240305: "parseISO tz ''2024-03-05'' = Some (localMidnight tz 19787)"
  by (simp add: parse_simps)

lemma parse_20240305T1030:
  "parseISO 0 ''2024-03-05T10:30'' = Some (localMidnight 0 19787 + 37800000)"
  by (simp add: parse_simps)
section \<open>The window of whole years\<close>

lemma window_buckets:
  assumes "0 \<le> r" and "r < msPerDay"
  shows "sum_list (map level (Object_values (fillLoop i n blank
           (bucketLoop p c push blank (localMidnight tz d0) (localMidnight tz d1 + r) [])))) =
         int (length (filter (\<lambda>d. c (localMidnight tz d)) [d0..d1])) \<and>
         sorted_wrt (<) (map period (Object_values (fillLoop i n blank
           (bucketLoop p c push blank (localMidnight tz d0) (localMidnight tz d1 + r) [])))) \<and>
         set (map period (Object_values (fillLoop i n blank
           (bucketLoop p c push blank (localMidnight tz d0) (localMidnight tz d1 + r) [])))) =
         (\<lambda>d. p (localMidnight tz d)) ` {d0..d1} \<union> {i..n}"
proof -
  let ?f = "\<lambda>m d. addToBucket (p (localMidnight tz d))
              (if c (localMidnight tz d) then 1 else 0) (push (localMidnight tz d)) blank m"
  let ?m = "foldl ?f [] [d0..d1]"
  let ?m' = "foldl (\<lambda>m i. ensureBucket i blank m) ?m [i..n]"
  have loop: "bucketLoop p c push blank (localMidnight tz d0) (localMidnight tz d1 + r) [] = ?m"
    using assms by (rule bucketLoop_fold)
  have s: "sorted_wrt (<) (map fst ?m)" by (rule fold_add_sorted) simp
  have q: "\<forall>e \<in> set ?m. period (snd e) = fst e" by (rule fold_add_period) simp_all
  have k: "set (map fst ?m) = (\<lambda>d. p (localMidnight tz d)) ` {d0..d1}"
    using fold_add_keys [of "\<lambda>d. p (localMidnight tz d)" _ _ blank "[]" "[d0..d1]"] by simp
  have v: "sum_list (map (\<lambda>e. level (snd e)) ?m) =
      int (length (filter (\<lambda>d. c (localMidnight tz d)) [d0..d1]))"
    using fold_add_levels [of "[]" "\<lambda>d. p (localMidnight tz d)" "\<lambda>d. c (localMidnight tz d)"
        "\<lambda>d. push (localMidnight tz d)" blank "[d0..d1]"] by simp
  have s': "sorted_wrt (<) (map fst ?m')" using s by (rule fold_ensure_sorted)
  have q': "\<forall>e \<in> set ?m'. period (snd e) = fst e" using s q by (rule fold_ensure_period)
  have k': "set (map fst ?m') = (\<lambda>d. p (localMidnight tz d)) ` {d0..d1} \<union> {i..n}"
    using fold_ensure_keys [of blank ?m "[i..n]"] k by simp
  have v': "sum_list (map (\<lambda>e. level (snd e)) ?m') =
      int (length (filter (\<lambda>d. c (localMidnight tz d)) [d0..d1]))"
    using fold_ensure_levels [OF s, of blank "[i..n]"] v by simp
  show ?thesis
    unfolding loop fillLoop_fold values_level values_period [OF q']
    using s' k' v' by simp
qed

lemma count_days:
  assumes "S \<subseteq> {d0..d1}"
  shows "length (filter (\<lambda>d. d \<in> S) [d0..d1]) = card S"
proof -
  have "length (filter (\<lambda>d. d \<in> S) [d0..d1]) = card ({d. d \<in> S} \<inter> set [d0..d1])"
    by (rule distinct_length_filter) simp
  also have "{d. d \<in> S} \<inter> set [d0..d1] = S" using assms by auto
  finally show ?thesis .
qed

lemma startOfYear_eq: "startOfYear tz t = localMidnight tz (DayFromYear (getYear tz t))"
  by (simp add: startOfYear_def MakeDay_def monthStart_def)

lemma endOfYear_eq:
  "endOfYear tz t = localMidnight tz (DayFromYear (getYear tz t + 1) - 1) + (msPerDay - 1)"
  by (simp add: endOfYear_def MakeDay_def monthStart_def)

lemma window_contains:
  assumes "t \<in> set (first # rest)"
  shows "localDay tz t \<in> {DayFromYear (getYear tz (earliestOf first rest)) ..
                          DayFromYear (getYear tz (latestOf first rest) + 1) - 1}"
proof -
  have "earliestOf first rest \<le> t" "t \<le> latestOf first rest"
    using earliestOf_props [of first rest] latestOf_props [of first rest] assms by auto
  then have "localDay tz (earliestOf first rest) \<le> localDay tz t"
    "localDay tz t \<le> localDay tz (latestOf first rest)"
    by (simp_all add: localDay_mono)
  then show ?thesis
    using YearFromDay_bracket [of "localDay tz (earliestOf first rest)"]
      YearFromDay_bracket [of "localDay tz (latestOf first rest)"]
    by (simp add: getYear_def)
qed

lemma window_years:
  assumes "d \<in> {DayFromYear y0 .. DayFromYear (y1 + 1) - 1}"
  shows "y0 \<le> YearFromDay d \<and> YearFromDay d \<le> y1"
proof -
  have "YearFromDay (DayFromYear y0) \<le> YearFromDay d"
    using assms by (intro YearFromDay_mono) simp
  moreover have "YearFromDay d < y1 + 1"
  proof (rule ccontr)
    assume "\<not> YearFromDay d < y1 + 1"
    then have "DayFromYear (y1 + 1) \<le> DayFromYear (YearFromDay d)"
      by (intro DayFromYear_mono) simp
    with YearFromDay_bracket [of d] assms show False by simp
  qed
  ultimately show ?thesis by simp
qed

text \<open>On a day whose year lies between those of the earliest and the latest date,
  the comparison of formatted strings finds the days of the input and no others,
  unless the input mixes the year 0000 (or an earlier one) with later years.\<close>

lemma completedOn_days:
  assumes "(\<forall>t \<in> set (first # rest). 0 < getYear tz t) \<or>
           (\<forall>t \<in> set (first # rest). getYear tz t \<le> 0)"
    and y: "getYear tz (earliestOf first rest) \<le> YearFromDay d"
      "YearFromDay d \<le> getYear tz (latestOf first rest)"
  shows "completedOn tz (first # rest) (localMidnight tz d) \<longleftrightarrow>
         d \<in> localDay tz ` set (first # rest)"
proof
  assume "completedOn tz (first # rest) (localMidnight tz d)"
  then obtain t where t: "t \<in> set (first # rest)"
    and f: "format tz t = format tz (localMidnight tz d)"
    by (auto simp: completedOn_def list_ex_iff)
  have e: "earliestOf first rest \<in> set (first # rest)"
    and l: "latestOf first rest \<in> set (first # rest)"
    using earliestOf_props [of first rest] latestOf_props [of first rest] by simp_all
  have "(0 < getYear tz t \<and> 0 < getYear tz (localMidnight tz d)) \<or>
        (getYear tz t \<le> 0 \<and> getYear tz (localMidnight tz d) \<le> 0)"
  proof (rule disjE [OF assms(1)])
    assume a: "\<forall>t \<in> set (first # rest). 0 < getYear tz t"
    then have "0 < getYear tz (earliestOf first rest)" using e by blast
    moreover have "0 < getYear tz t" using a t by blast
    ultimately show ?thesis using y by (simp add: getYear_def [of tz "localMidnight tz d"])
  next
    assume a: "\<forall>t \<in> set (first # rest). getYear tz t \<le> 0"
    then have "getYear tz (latestOf first rest) \<le> 0" using l by blast
    moreover have "getYear tz t \<le> 0" using a t by blast
    ultimately show ?thesis using y by (simp add: getYear_def [of tz "localMidnight tz d"])
  qed
  with f have "localDay tz t = localDay tz (localMidnight tz d)" by (rule format_same_era)
  with t show "d \<in> localDay tz ` set (first # rest)" by (simp add: image_iff) metis
next
  assume "d \<in> localDay tz ` set (first # rest)"
  then obtain t where t: "t \<in> set (first # rest)" and d: "d = localDay tz t" by auto
  then have "format tz t = format tz (localMidnight tz d)" by (intro format_localDay) simp
  with t show "completedOn tz (first # rest) (localMidnight tz d)"
    by (auto simp: completedOn_def list_ex_iff)
qed

lemma completedOn_iff:
  assumes "(\<forall>t \<in> set (first # rest). 0 < getYear tz t) \<or>
           (\<forall>t \<in> set (first # rest). getYear tz t \<le> 0)"
    and "d \<in> {DayFromYear (getYear tz (earliestOf first rest)) ..
               DayFromYear (getYear tz (latestOf first rest) + 1) - 1}"
  shows "completedOn tz (first # rest) (localMidnight tz d) \<longleftrightarrow>
         d \<in> localDay tz ` set (first # rest)"
  using assms(1) window_years [OF assms(2)] by (intro completedOn_days) simp_all

lemma sameDayIn_iff:
  "sameDayIn tz ts (localMidnight tz d) \<longleftrightarrow> d \<in> localDay tz ` set ts"
  by (auto simp: sameDayIn_def list_ex_iff isSameDay_def)

lemma filter_cong_range:
  "(\<And>d. d \<in> {d0..d1} \<Longrightarrow> P d = Q d) \<Longrightarrow> filter P [d0..d1] = filter Q [d0..d1]"
  by (rule filter_cong) simp_all

text \<open>The number of completed days that a loop over the window counts.\<close>

lemma window_count_format:
  assumes "(\<forall>t \<in> set (first # rest). 0 < getYear tz t) \<or>
           (\<forall>t \<in> set (first # rest). getYear tz t \<le> 0)"
  shows "length (filter (\<lambda>d. completedOn tz (first # rest) (localMidnight tz d))
           [DayFromYear (getYear tz (earliestOf first rest)) ..
            DayFromYear (getYear tz (latestOf first rest) + 1) - 1]) =
         card (localDay tz ` set (first # rest))"
proof -
  let ?d0 = "DayFromYear (getYear tz (earliestOf first rest))"
  let ?d1 = "DayFromYear (getYear tz (latestOf first rest) + 1) - 1"
  have "filter (\<lambda>d. completedOn tz (first # rest) (localMidnight tz d)) [?d0..?d1] =
        filter (\<lambda>d. d \<in> localDay tz ` set (first # rest)) [?d0..?d1]"
    by (rule filter_cong_range) (rule completedOn_iff [OF assms])
  moreover have "localDay tz ` set (first # rest) \<subseteq> {?d0..?d1}"
    using window_contains [of _ first rest tz] by blast
  ultimately show ?thesis by (simp only: count_days)
qed

lemma window_count_sameDay:
  "length (filter (\<lambda>d. sameDayIn tz (first # rest) (localMidnight tz d))
     [DayFromYear (getYear tz (earliestOf first rest)) ..
      DayFromYear (getYear tz (latestOf first rest) + 1) - 1]) =
   card (localDay tz ` set (first # rest))"
proof -
  have "localDay tz ` set (first # rest) \<subseteq>
      {DayFromYear (getYear tz (earliestOf first rest)) ..
       DayFromYear (getYear tz (latestOf first rest) + 1) - 1}"
    using window_contains [of _ first rest tz] by blast
  then show ?thesis by (simp only: sameDayIn_iff count_days)
qed

lemma window_sum:
  assumes "length (filter (\<lambda>d. c (localMidnight tz d))
             [DayFromYear (getYear tz e) .. DayFromYear (getYear tz l + 1) - 1]) = k"
  shows "sum_list (map level (Object_values (fillLoop i n blank
           (bucketLoop p c push blank (startOfYear tz e) (endOfYear tz l) [])))) = int k"
proof -
  have "(0::int) \<le> msPerDay - 1" "msPerDay - 1 < msPerDay" by (simp_all add: msPerDay_def)
  from window_buckets [OF this, of i n blank p c push tz "DayFromYear (getYear tz e)"
      "DayFromYear (getYear tz l + 1) - 1"] assms
  show ?thesis by (simp add: startOfYear_eq endOfYear_eq)
qed

lemma parsed_nonempty: "parseAll tz data = Some (first # rest) \<Longrightarrow> data \<noteq> []"
  by auto

section \<open>The level of one bucket\<close>






section \<open>The yearly buckets\<close>






section \<open>The years 0000 and 0001\<close>

lemma parse_00010601: "parseISO 0 ''0001-06-01'' = Some (localMidnight 0 (- 719011))"
  by (simp add: parse_simps)

lemma parse_00000701: "parseISO 0 ''0000-07-01'' = Some (localMidnight 0 (- 719346))"
  by (simp add: parse_simps)

lemma format_year0:
  "format 0 (localMidnight 0 (- 719376)) = ''0001-06-01''"
  "format 0 (localMidnight 0 (- 719346)) = ''0001-07-01''"
  "format 0 (localMidnight 0 (- 719011)) = ''0001-06-01''"
  "format 0 (localMidnight 0 (- 718981)) = ''0001-07-01''"
  by code_simp+

lemma fields_year0:
  "getMonth 0 (localMidnight 0 (- 719011)) = 5" "getDate 0 (localMidnight 0 (- 719011)) = 1"
  "getMonth 0 (localMidnight 0 (- 719346)) = 6" "getDate 0 (localMidnight 0 (- 719346)) = 1"
  by code_simp+

lemma window_year0:
  "getYear 0 (localMidnight 0 (- 719346)) = 0"
  "getYear 0 (localMidnight 0 (- 719011)) = 1"
  "DayFromYear 0 = - 719528"
  "DayFromYear (1 + 1) - 1 = - 718798"
  by code_simp+

lemma completed_year0:
  assumes "d \<in> {- 719528 .. - 718798}"
  shows "completedOn 0 [localMidnight 0 (- 719011), localMidnight 0 (- 719346)]
           (localMidnight 0 d) \<longleftrightarrow>
         d \<in> {- 719376, - 719346, - 719011, - 718981}"
proof
  assume "d \<in> {- 719376, - 719346, - 719011, - 718981}"
  then show "completedOn 0 [localMidnight 0 (- 719011), localMidnight 0 (- 719346)]
      (localMidnight 0 d)"
    by (auto simp: completedOn_def format_year0)
next
  assume c: "completedOn 0 [localMidnight 0 (- 719011), localMidnight 0 (- 719346)]
      (localMidnight 0 d)"
  have "d \<in> {DayFromYear 0 .. DayFromYear (1 + 1) - 1}"
    using assms by (simp add: DayFromYear_def)
  from window_years [OF this] have y: "YearFromDay d = 0 \<or> YearFromDay d = 1" by auto
  from c have "(MonthFromDay d = 5 \<and> DateFromDay d = 1) \<or> (MonthFromDay d = 6 \<and> DateFromDay d = 1)"
    using format_fields [of 0 "localMidnight 0 (- 719011)" "localMidnight 0 d"]
      format_fields [of 0 "localMidnight 0 (- 719346)" "localMidnight 0 d"]
    by (auto simp: completedOn_def fields_year0 getMonth_def [of 0 "localMidnight 0 d"]
        getDate_def [of 0 "localMidnight 0 d"])
  with y have "MakeDay (YearFromDay d) (MonthFromDay d) (DateFromDay d)
      \<in> {MakeDay 0 5 1, MakeDay 0 6 1, MakeDay 1 5 1, MakeDay 1 6 1}"
    by auto
  then show "d \<in> {- 719376, - 719346, - 719011, - 718981}"
    unfolding MakeDay_fields
    by (simp add: MakeDay_def DayFromYear_def monthStart_def leapDay_def InLeapYear_def)
qed


section \<open>Week numbers\<close>

lemma localMidnight_le_iff: "localMidnight tz x \<le> t \<longleftrightarrow> x \<le> localDay tz t"
proof -
  define q r where "q = (t + tz) div 86400000" and "r = (t + tz) mod 86400000"
  have e: "t + tz = 86400000 * q + r" and r: "0 \<le> r" "r < 86400000"
    by (simp_all add: q_def r_def)
  have "x * 86400000 - tz \<le> t \<longleftrightarrow> x \<le> q"
    using e r by (simp add: algebra_simps) linarith
  then show ?thesis by (simp add: localMidnight_def localDay_def msPerDay_def q_def)
qed

lemma week_floor: "d - WeekDay d = 7 * ((d + 4) div 7) - 4"
  unfolding WeekDay_def by presburger

lemma week_index_le: "7 * a - 4 \<le> d \<longleftrightarrow> a \<le> (d + 4) div (7::int)"
  by presburger

lemma week_index_mono: "(a::int) \<le> b \<Longrightarrow> (a + 4) div 7 \<le> (b + 4) div 7"
  by (simp add: zdiv_mono1)

lemma week_index_back: "((d::int) - 7 + 4) div 7 = (d + 4) div 7 - 1"
  by presburger

lemma startOfWeek_eq:
  "startOfWeek tz t = localMidnight tz (7 * ((localDay tz t + 4) div 7) - 4)"
  by (simp add: startOfWeek_def Let_def week_floor)

lemma getWeekYear_eq:
  "getWeekYear tz t =
     (if (DayFromYear (getYear tz t + 1) + 4) div 7 \<le> (localDay tz t + 4) div 7
      then getYear tz t + 1 else getYear tz t)"
proof -
  have "DayFromYear (getYear tz t) \<le> localDay tz t"
    using YearFromDay_bracket [of "localDay tz t"] by (simp add: getYear_def)
  then have "(DayFromYear (getYear tz t) + 4) div 7 \<le> (localDay tz t + 4) div 7"
    by (rule week_index_mono)
  then show ?thesis
    by (simp add: getWeekYear_def Let_def startOfWeek_eq MakeDay_def monthStart_def
        localMidnight_le_iff week_index_le)
qed

lemma roundDiv_multiple: "roundDiv (millisecondsInWeek * n) millisecondsInWeek = n"
proof -
  have "(2 * (604800000 * n) + 604800000) div (2 * 604800000) = n"
    by (rule int_div_pos_eq [where r = 604800000]) simp_all
  then show ?thesis by (simp add: roundDiv_def millisecondsInWeek_def)
qed

text \<open>The week number of a time value, from its local day \<open>d\<close> alone: with the weeks
  since the epoch counted by \<open>(d + 4) div 7\<close>, a day in the week of the next January 1
  is in week 1, and any other day counts its weeks from the week of its own year's
  January 1.\<close>

lemma getWeek_eq:
  "getWeek tz t =
     (if (DayFromYear (getYear tz t + 1) + 4) div 7 \<le> (localDay tz t + 4) div 7 then 1
      else (localDay tz t + 4) div 7 - (DayFromYear (getYear tz t) + 4) div 7 + 1)"
proof -
  let ?d = "localDay tz t" and ?y = "getYear tz t"
  have diff: "localMidnight tz (7 * a - 4) - localMidnight tz (7 * b - 4)
      = millisecondsInWeek * (a - b)" for a b
    by (simp add: localMidnight_def msPerDay_def millisecondsInWeek_def algebra_simps)
  have w: "getWeek tz t = (?d + 4) div 7 - (DayFromYear (getWeekYear tz t) + 4) div 7 + 1"
    by (simp add: getWeek_def startOfWeekYear_def startOfWeek_eq MakeDay_def monthStart_def
        diff roundDiv_multiple)
  show ?thesis
  proof (cases "(DayFromYear (?y + 1) + 4) div 7 \<le> (?d + 4) div 7")
    case True
    have "?d \<le> DayFromYear (?y + 1)"
      using YearFromDay_bracket [of ?d] by (simp add: getYear_def)
    then have "(?d + 4) div 7 \<le> (DayFromYear (?y + 1) + 4) div 7" by (rule week_index_mono)
    with True w show ?thesis by (simp add: getWeekYear_eq)
  next
    case False
    with w show ?thesis by (simp add: getWeekYear_eq)
  qed
qed

lemma getWeek_localDay: "getWeek tz t = getWeek tz (localMidnight tz (localDay tz t))"
  by (simp add: getWeek_eq getYear_def)

lemma getWeek_positive: "1 \<le> getWeek tz t"
proof -
  have "DayFromYear (getYear tz t) \<le> localDay tz t"
    using YearFromDay_bracket [of "localDay tz t"] by (simp add: getYear_def)
  then have "(DayFromYear (getYear tz t) + 4) div 7 \<le> (localDay tz t + 4) div 7"
    by (rule week_index_mono)
  then show ?thesis by (simp add: getWeek_eq)
qed


lemma getWeek_midnight:
  "getWeek tz (localMidnight tz d) =
     (if (DayFromYear (YearFromDay d + 1) + 4) div 7 \<le> (d + 4) div 7 then 1
      else (d + 4) div 7 - (DayFromYear (YearFromDay d) + 4) div 7 + 1)"
  by (simp add: getWeek_eq getYear_def)

text \<open>Inside a window of whole years, below every week number but 1 lies the next
  smaller one: seven days earlier, or on January 1 when that would leave the year.\<close>

lemma weeks_downward:
  assumes w: "d \<in> {DayFromYear y0 .. DayFromYear (y1 + 1) - 1}"
    and k: "2 \<le> getWeek tz (localMidnight tz d)"
  shows "\<exists>d' \<in> {DayFromYear y0 .. DayFromYear (y1 + 1) - 1}.
           getWeek tz (localMidnight tz d') = getWeek tz (localMidnight tz d) - 1"
proof -
  define y where "y = YearFromDay d"
  define d' where "d' = max (d - 7) (DayFromYear y)"
  have yr: "y0 \<le> y" "y \<le> y1" using window_years [OF w] by (simp_all add: y_def)
  have br: "DayFromYear y \<le> d" "d < DayFromYear (y + 1)"
    using YearFromDay_bracket [of d] by (simp_all add: y_def)
  have nowrap: "\<not> (DayFromYear (y + 1) + 4) div 7 \<le> (d + 4) div 7"
    using k by (auto simp: getWeek_midnight y_def split: if_splits)
  then have wk: "getWeek tz (localMidnight tz d) = (d + 4) div 7 - (DayFromYear y + 4) div 7 + 1"
    by (simp add: getWeek_midnight y_def)
  with k have q: "(DayFromYear y + 4) div 7 \<le> (d + 4) div 7 - 1" by simp
  have d'1: "DayFromYear y \<le> d'" "d - 7 \<le> d'" "d' \<le> d" using br by (simp_all add: d'_def)
  then have y': "YearFromDay d' = y" using br by (intro YearFromDay_unique) simp_all
  have "(d - 7 + 4) div 7 \<le> (d' + 4) div 7"
    using d'1(2) zdiv_mono1 [of "d - 7 + 4" "d' + 4" 7] by simp
  then have lo: "(d + 4) div 7 - 1 \<le> (d' + 4) div 7" by (simp add: week_index_back)
  have hi: "(d' + 4) div 7 \<le> (d + 4) div 7 - 1"
  proof (cases "d - 7 \<le> DayFromYear y")
    case True
    then have "d' = DayFromYear y" by (simp add: d'_def)
    with q show ?thesis by simp
  next
    case False
    then have "d' = d - 7" by (simp add: d'_def)
    then show ?thesis using week_index_back [of d] by simp
  qed
  from lo hi have eq: "(d' + 4) div 7 = (d + 4) div 7 - 1" by simp
  with nowrap have "\<not> (DayFromYear (y + 1) + 4) div 7 \<le> (d' + 4) div 7" by simp
  then have "getWeek tz (localMidnight tz d') = (d' + 4) div 7 - (DayFromYear y + 4) div 7 + 1"
    by (simp add: getWeek_midnight y')
  with eq wk have "getWeek tz (localMidnight tz d') = getWeek tz (localMidnight tz d) - 1"
    by simp
  moreover have "DayFromYear y0 \<le> d'"
    using DayFromYear_mono [OF yr(1)] d'1(1) by simp
  moreover have "d' \<le> DayFromYear (y1 + 1) - 1" using d'1(3) w by simp
  ultimately show ?thesis by auto
qed

lemma contiguous_from_one:
  fixes S :: "int set"
  assumes "finite S" and "S \<noteq> {}" and "\<forall>k \<in> S. 1 \<le> k"
    and "\<forall>k \<in> S. 2 \<le> k \<longrightarrow> k - 1 \<in> S"
  shows "S = {1..Max S}"
proof (intro equalityI subsetI)
  fix k assume "k \<in> S"
  then show "k \<in> {1..Max S}" using assms(1,3) by simp
next
  fix j assume j: "j \<in> {1..Max S}"
  have "1 \<le> j \<longrightarrow> j \<in> S"
  proof (rule int_le_induct [of j "Max S"])
    show "j \<le> Max S" using j by simp
    show "1 \<le> Max S \<longrightarrow> Max S \<in> S" using assms(1,2) by simp
    fix i assume "i \<le> Max S" and ih: "1 \<le> i \<longrightarrow> i \<in> S"
    show "1 \<le> i - 1 \<longrightarrow> i - 1 \<in> S"
    proof
      assume "1 \<le> i - 1"
      then have "2 \<le> i" by simp
      moreover from this ih have "i \<in> S" by simp
      ultimately show "i - 1 \<in> S" using assms(4) by blast
    qed
  qed
  with j show "j \<in> S" by simp
qed

lemma weeks_image:
  assumes "y0 \<le> y1"
  shows "(\<lambda>d. getWeek tz (localMidnight tz d)) ` {DayFromYear y0 .. DayFromYear (y1 + 1) - 1}
      = {1 .. Max ((\<lambda>d. getWeek tz (localMidnight tz d)) `
                     {DayFromYear y0 .. DayFromYear (y1 + 1) - 1})}"
proof -
  let ?S = "(\<lambda>d. getWeek tz (localMidnight tz d)) ` {DayFromYear y0 .. DayFromYear (y1 + 1) - 1}"
  have "DayFromYear y0 + 365 \<le> DayFromYear (y1 + 1)"
    using assms by (intro DayFromYear_less) simp
  then have ne: "?S \<noteq> {}" by simp
  have fin: "finite ?S" by simp
  have pos: "\<forall>k \<in> ?S. 1 \<le> k" by (auto simp: getWeek_positive)
  have down: "\<forall>k \<in> ?S. 2 \<le> k \<longrightarrow> k - 1 \<in> ?S"
  proof (intro ballI impI)
    fix k assume "k \<in> ?S" and k2: "2 \<le> k"
    then obtain d where d: "d \<in> {DayFromYear y0 .. DayFromYear (y1 + 1) - 1}"
      and kd: "k = getWeek tz (localMidnight tz d)" by auto
    have "2 \<le> getWeek tz (localMidnight tz d)" using k2 kd by simp
    from weeks_downward [OF d this] obtain d' where
      "d' \<in> {DayFromYear y0 .. DayFromYear (y1 + 1) - 1}"
      "getWeek tz (localMidnight tz d') = k - 1" unfolding kd by blast
    then show "k - 1 \<in> ?S" by (metis (mono_tags, lifting) imageI)
  qed
  show ?thesis using fin ne pos down by (rule contiguous_from_one)
qed

text \<open>No day has a week number above 53, and every year has a day in week 52 or 53:
  the Saturday before the week of the next January 1.\<close>

lemma week_index_year: "((j::int) + 365 + 4) div 7 \<ge> (j + 4) div 7 + 52"
  "((j::int) + 366 + 4) div 7 \<le> (j + 4) div 7 + 53"
  by presburger+

lemma getWeek_le_53: "getWeek tz (localMidnight tz d) \<le> 53"
proof (cases "(DayFromYear (YearFromDay d + 1) + 4) div 7 \<le> (d + 4) div 7")
  case True
  then show ?thesis by (simp add: getWeek_midnight)
next
  case False
  have "DayFromYear (YearFromDay d + 1) \<le> DayFromYear (YearFromDay d) + 366"
    using leapDay_range [of "YearFromDay d"] by (simp add: DayFromYear_Suc)
  then have "(DayFromYear (YearFromDay d + 1) + 4) div 7
      \<le> (DayFromYear (YearFromDay d) + 366 + 4) div 7"
    by (intro zdiv_mono1) simp_all
  also have "\<dots> \<le> (DayFromYear (YearFromDay d) + 4) div 7 + 53" by (rule week_index_year)
  finally show ?thesis using False by (simp add: getWeek_midnight)
qed

lemma week_52_exists:
  "\<exists>d \<in> {DayFromYear y .. DayFromYear (y + 1) - 1}. 52 \<le> getWeek tz (localMidnight tz d)"
proof -
  define q where "q = (DayFromYear (y + 1) + 4) div 7"
  define d where "d = 7 * q - 5"
  have j: "DayFromYear y + 365 \<le> DayFromYear (y + 1)" by (rule DayFromYear_less) simp
  have "DayFromYear (y + 1) - 7 \<le> d" "d \<le> DayFromYear (y + 1) - 1"
    unfolding d_def q_def by presburger+
  with j have r: "DayFromYear y \<le> d" "d < DayFromYear (y + 1)" by simp_all
  then have yd: "YearFromDay d = y" by (rule YearFromDay_unique)
  have i: "(d + 4) div 7 = q - 1" unfolding d_def by presburger
  have "(DayFromYear y + 4) div 7 + 52 \<le> (DayFromYear y + 365 + 4) div 7"
    by (rule week_index_year)
  also have "\<dots> \<le> q" unfolding q_def using j by (intro zdiv_mono1) simp_all
  finally have "52 \<le> q - 1 - (DayFromYear y + 4) div 7 + 1" by simp
  moreover have "\<not> q \<le> (d + 4) div 7" by (simp add: i)
  ultimately have "52 \<le> getWeek tz (localMidnight tz d)"
    by (simp add: getWeek_midnight yd i flip: q_def)
  with r show ?thesis by (intro bexI [of _ d]) simp_all
qed

lemma weeks_max:
  assumes "y0 \<le> y1"
  shows "52 \<le> Max ((\<lambda>d. getWeek tz (localMidnight tz d)) `
                    {DayFromYear y0 .. DayFromYear (y1 + 1) - 1})"
    and "Max ((\<lambda>d. getWeek tz (localMidnight tz d)) `
             {DayFromYear y0 .. DayFromYear (y1 + 1) - 1}) \<le> 53"
proof -
  let ?D = "{DayFromYear y0 .. DayFromYear (y1 + 1) - 1}"
  let ?S = "(\<lambda>d. getWeek tz (localMidnight tz d)) ` ?D"
  from week_52_exists [of y0 tz] obtain d where
    d: "DayFromYear y0 \<le> d" "d \<le> DayFromYear (y0 + 1) - 1"
    and w: "52 \<le> getWeek tz (localMidnight tz d)" by auto
  have "DayFromYear (y0 + 1) \<le> DayFromYear (y1 + 1)"
    using assms by (intro DayFromYear_mono) simp
  with d have "d \<in> ?D" by simp
  then have "getWeek tz (localMidnight tz d) \<in> ?S" by (rule imageI)
  then have "getWeek tz (localMidnight tz d) \<le> Max ?S" by (intro Max_ge) simp_all
  with w show "52 \<le> Max ?S" by simp
  have "?S \<noteq> {}" using \<open>d \<in> ?D\<close> by blast
  then show "Max ?S \<le> 53" by (simp add: getWeek_le_53)
qed

lemma ceilHalf_image:
  assumes "1 \<le> n"
  shows "ceilHalf ` {1..n} = {1..ceilHalf n}"
proof (intro equalityI subsetI)
  fix j assume "j \<in> ceilHalf ` {1..n}"
  then obtain k where "1 \<le> k" "k \<le> n" "j = ceilHalf k" by auto
  then show "j \<in> {1..ceilHalf n}" unfolding ceilHalf_def by simp presburger
next
  fix j assume "j \<in> {1..ceilHalf n}"
  then have "1 \<le> j" "j \<le> ceilHalf n" by simp_all
  then have "1 \<le> 2 * j - 1" "2 * j - 1 \<le> n" "ceilHalf (2 * j - 1) = j"
    unfolding ceilHalf_def by presburger+
  then show "j \<in> ceilHalf ` {1..n}" by (metis atLeastAtMost_iff imageI)
qed

lemma ceilHalf_mono: "a \<le> b \<Longrightarrow> ceilHalf a \<le> ceilHalf b"
  unfolding ceilHalf_def by presburger

lemma localDay_end: "localDay tz (localMidnight tz d + (msPerDay - 1)) = d"
  by (simp add: localDay_def localMidnight_def msPerDay_def)

lemma window_periods:
  "sorted_wrt (<) (map period (Object_values (fillLoop i n blank
     (bucketLoop p c push blank (startOfYear tz e) (endOfYear tz l) [])))) \<and>
   set (map period (Object_values (fillLoop i n blank
     (bucketLoop p c push blank (startOfYear tz e) (endOfYear tz l) [])))) =
   (\<lambda>d. p (localMidnight tz d)) `
     {DayFromYear (getYear tz e) .. DayFromYear (getYear tz l + 1) - 1} \<union> {i..n}"
proof -
  have "(0::int) \<le> msPerDay - 1" "msPerDay - 1 < msPerDay" by (simp_all add: msPerDay_def)
  from window_buckets [OF this, of i n blank p c push tz "DayFromYear (getYear tz e)"
      "DayFromYear (getYear tz l + 1) - 1"]
  show ?thesis by (simp add: startOfYear_eq endOfYear_eq)
qed

lemma fixed_periods:
  assumes "\<forall>t. 1 \<le> p t \<and> p t \<le> n"
  shows "map period (Object_values (fillLoop 1 n blank
     (bucketLoop p c push blank (startOfYear tz e) (endOfYear tz l) []))) = [1..n]"
proof -
  have "(\<lambda>d. p (localMidnight tz d)) `
      {DayFromYear (getYear tz e) .. DayFromYear (getYear tz l + 1) - 1} \<union> {1..n} = {1..n}"
    using assms by auto
  with window_periods [of 1 n blank p c push tz e l] show ?thesis
    by (intro ascending_range) simp_all
qed

lemma years_ordered: "getYear tz (earliestOf first rest) \<le> getYear tz (latestOf first rest)"
proof -
  have "earliestOf first rest \<le> latestOf first rest"
    using earliestOf_props [of first rest] latestOf_props [of first rest] by auto
  then show ?thesis unfolding getYear_def by (intro YearFromDay_mono localDay_mono)
qed

lemma totalWeeks_in_window:
  "getWeek tz (endOfYear tz l) \<in> (\<lambda>d. getWeek tz (localMidnight tz d)) `
     {DayFromYear (getYear tz e) .. DayFromYear (getYear tz l + 1) - 1}"
  if "getYear tz e \<le> getYear tz l"
proof -
  have "DayFromYear (getYear tz e) + 365 \<le> DayFromYear (getYear tz l + 1)"
    using that by (intro DayFromYear_less) simp
  then have "DayFromYear (getYear tz l + 1) - 1 \<in>
      {DayFromYear (getYear tz e) .. DayFromYear (getYear tz l + 1) - 1}" by simp
  moreover have "getWeek tz (endOfYear tz l) =
      getWeek tz (localMidnight tz (DayFromYear (getYear tz l + 1) - 1))"
    using getWeek_localDay [of tz "endOfYear tz l"] by (simp add: endOfYear_eq localDay_end)
  ultimately show ?thesis by (metis (mono_tags, lifting) imageI)
qed

lemma week_periods:
  assumes "getYear tz e \<le> getYear tz l"
  shows "map period (Object_values (fillLoop 1 (getWeek tz (endOfYear tz l)) blank
           (bucketLoop (getWeek tz) c push blank (startOfYear tz e) (endOfYear tz l) []))) =
         [1 .. Max ((\<lambda>d. getWeek tz (localMidnight tz d)) `
                  {DayFromYear (getYear tz e) .. DayFromYear (getYear tz l + 1) - 1})]"
    and "getWeek tz (endOfYear tz l) \<le>
         Max ((\<lambda>d. getWeek tz (localMidnight tz d)) `
                {DayFromYear (getYear tz e) .. DayFromYear (getYear tz l + 1) - 1})"
proof -
  let ?bs = "Object_values (fillLoop 1 (getWeek tz (endOfYear tz l)) blank
      (bucketLoop (getWeek tz) c push blank (startOfYear tz e) (endOfYear tz l) []))"
  let ?W = "(\<lambda>d. getWeek tz (localMidnight tz d)) `
      {DayFromYear (getYear tz e) .. DayFromYear (getYear tz l + 1) - 1}"
  note n = weeks_image [OF assms, of tz]
  have "getWeek tz (endOfYear tz l) \<in> {1..Max ?W}"
    using totalWeeks_in_window [OF assms] n by simp
  then show t: "getWeek tz (endOfYear tz l) \<le> Max ?W" by simp
  have "?W \<union> {1..getWeek tz (endOfYear tz l)} = {1..Max ?W}"
  proof -
    have "{1..getWeek tz (endOfYear tz l)} \<subseteq> {1..Max ?W}" using t by simp
    then have "{1..Max ?W} \<union> {1..getWeek tz (endOfYear tz l)} = {1..Max ?W}" by blast
    then show ?thesis using n by simp
  qed
  with window_periods [of 1 "getWeek tz (endOfYear tz l)" blank "getWeek tz" c push tz e l]
  have "sorted_wrt (<) (map period ?bs)" "set (map period ?bs) = {1..Max ?W}" by simp_all
  then show "map period ?bs = [1..Max ?W]" by (rule ascending_range)
qed

lemma biweek_periods:
  assumes "getYear tz e \<le> getYear tz l"
  shows "map period (Object_values (fillLoop 1 (ceilHalf (getWeek tz (endOfYear tz l))) blank
           (bucketLoop (\<lambda>day. ceilHalf (getWeek tz day)) c push blank
              (startOfYear tz e) (endOfYear tz l) []))) =
         [1 .. ceilHalf (Max ((\<lambda>d. getWeek tz (localMidnight tz d)) `
                  {DayFromYear (getYear tz e) .. DayFromYear (getYear tz l + 1) - 1}))]"
proof -
  let ?bs = "Object_values (fillLoop 1 (ceilHalf (getWeek tz (endOfYear tz l))) blank
      (bucketLoop (\<lambda>day. ceilHalf (getWeek tz day)) c push blank
         (startOfYear tz e) (endOfYear tz l) []))"
  let ?D = "{DayFromYear (getYear tz e) .. DayFromYear (getYear tz l + 1) - 1}"
  let ?W = "(\<lambda>d. getWeek tz (localMidnight tz d)) ` ?D"
  note n = weeks_image [OF assms, of tz]
  have n1: "1 \<le> Max ?W" using weeks_max(1) [OF assms, of tz] by simp
  have "getWeek tz (endOfYear tz l) \<in> {1..Max ?W}"
    using totalWeeks_in_window [OF assms] n by simp
  then have "getWeek tz (endOfYear tz l) \<le> Max ?W" by simp
  then have t: "ceilHalf (getWeek tz (endOfYear tz l)) \<le> ceilHalf (Max ?W)"
    by (rule ceilHalf_mono)
  have "(\<lambda>d. ceilHalf (getWeek tz (localMidnight tz d))) ` ?D = ceilHalf ` ?W"
    by (simp add: image_image)
  also have "\<dots> = ceilHalf ` {1..Max ?W}" using n by simp
  also have "\<dots> = {1..ceilHalf (Max ?W)}" using n1 by (rule ceilHalf_image)
  finally have "(\<lambda>d. ceilHalf (getWeek tz (localMidnight tz d))) ` ?D \<union>
      {1..ceilHalf (getWeek tz (endOfYear tz l))} = {1..ceilHalf (Max ?W)}"
    using t by auto
  with window_periods [of 1 "ceilHalf (getWeek tz (endOfYear tz l))" blank
      "\<lambda>day. ceilHalf (getWeek tz day)" c push tz e l]
  have "sorted_wrt (<) (map period ?bs)" "set (map period ?bs) = {1..ceilHalf (Max ?W)}"
    by simp_all
  then show ?thesis by (rule ascending_range)
qed

lemma month_range: "1 \<le> getMonth tz t + 1 \<and> getMonth tz t + 1 \<le> 12"
  using MonthFromDay_range [of "localDay tz t"] by (simp add: getMonth_def)

lemma quarter_range: "1 \<le> getQuarter tz t \<and> getQuarter tz t \<le> 4"
proof -
  have "0 \<le> m \<and> m \<le> 11 \<Longrightarrow> 0 \<le> m div 3 \<and> m div 3 \<le> 3" for m :: int
    by presburger
  from this [OF MonthFromDay_range [of "localDay tz t"]] show ?thesis
    by (simp add: getQuarter_def getMonth_def)
qed

lemma semester_range:
  "\<forall>t. (1::int) \<le> (if getMonth tz t < 6 then 1 else 2) \<and>
       (if getMonth tz t < 6 then 1 else 2) \<le> (2::int)"
  by simp


section \<open>The weeks of 2024\<close>

lemma weeks_2024:
  "getWeek 0 (endOfYear 0 (localMidnight 0 19723)) = 1"
  "DayFromYear (getYear 0 (localMidnight 0 19723)) = 19723"
  "DayFromYear (getYear 0 (localMidnight 0 19723) + 1) - 1 = 20088"
  by code_simp+

lemma weeks_2024_bound:
  assumes "d \<in> {19723..20088}"
  shows "getWeek 0 (localMidnight 0 d) \<le> 52"
proof -
  have j: "DayFromYear 2024 = 19723" "DayFromYear 2025 = 20089"
    by (simp_all add: DayFromYear_def)
  have y: "YearFromDay d = 2024"
    using assms by (intro YearFromDay_unique) (simp_all add: j)
  have "(d + 4) div 7 < 2870 \<Longrightarrow> (d + 4) div 7 - 2818 + 1 \<le> 52" by simp
  then show ?thesis
    by (simp add: getWeek_midnight y j)
qed

lemma week_52_of_2024: "getWeek 0 (localMidnight 0 20079) = 52"
  by code_simp

lemma max_week_2024: "Max ((\<lambda>d. getWeek 0 (localMidnight 0 d)) ` {19723..20088}) = 52"
proof (rule Max_eqI)
  show "finite ((\<lambda>d. getWeek 0 (localMidnight 0 d)) ` {19723..20088})" by simp
  show "y \<le> 52" if "y \<in> (\<lambda>d. getWeek 0 (localMidnight 0 d)) ` {19723..20088}" for y
    using that weeks_2024_bound by auto
  have "(20079::int) \<in> {19723..20088}" by simp
  then have "getWeek 0 (localMidnight 0 20079) \<in>
      (\<lambda>d. getWeek 0 (localMidnight 0 d)) ` {19723..20088}" by (rule imageI)
  then show "52 \<in> (\<lambda>d. getWeek 0 (localMidnight 0 d)) ` {19723..20088}"
    by (simp only: week_52_of_2024)
qed
section \<open>Buckets: the claims\<close>




section \<open>The sum of the levels\<close>

text \<open>
  For the time values of a non-empty list of dates, the levels of the buckets of
  \<^verbatim>\<open>getBiWeeklyData\<close>, which compares days with \<^verbatim>\<open>isSameDay\<close>, sum to the
  number of distinct calendar days of the input. The other five functions compare
  formatted strings: their levels sum to that number when the dates are all of the
  year 0001 or later, or all of the year 0000 or earlier.
\<close>

lemma levels_sum_sameDay:
  "sum_list (map level (biWeeklyBuckets tz first rest)) =
     int (card (localDay tz ` set (first # rest)))"
  using window_sum [OF window_count_sameDay]
  by (simp add: biWeeklyBuckets_def Let_def)

lemma levels_sum_format:
  assumes "(\<forall>t \<in> set (first # rest). 0 < getYear tz t) \<or>
           (\<forall>t \<in> set (first # rest). getYear tz t \<le> 0)"
  shows "sum_list (map level (dailyBuckets tz first rest)) =
           int (card (localDay tz ` set (first # rest)))"
    and "sum_list (map level (weeklyBuckets tz first rest)) =
           int (card (localDay tz ` set (first # rest)))"
    and "sum_list (map level (monthlyBuckets tz first rest)) =
           int (card (localDay tz ` set (first # rest)))"
    and "sum_list (map level (quarterlyBuckets tz first rest)) =
           int (card (localDay tz ` set (first # rest)))"
    and "sum_list (map level (semesterlyBuckets tz first rest)) =
           int (card (localDay tz ` set (first # rest)))"
  using window_sum [OF window_count_format [OF assms]]
  by (simp_all add: dailyBuckets_def weeklyBuckets_def monthlyBuckets_def
      quarterlyBuckets_def semesterlyBuckets_def Let_def)

text \<open>
  Claim C1 fails in the code where the input mixes the year 0000 with a later year:
  \<^verbatim>\<open>format\<close> prints the year 0000 (1 BC) as \<^verbatim>\<open>0001\<close>, so a day of the year 0000
  and the same day of the year 0001 have the same string. For the two dates
  0001-06-01 and 0000-07-01, two distinct calendar days, the levels of
  \<^verbatim>\<open>getDailyData\<close>, \<^verbatim>\<open>getWeeklyData\<close>, \<^verbatim>\<open>getMonthlyData\<close>,
  \<^verbatim>\<open>getQuarterlyData\<close> and \<^verbatim>\<open>getSemesterlyData\<close> each sum to 4: June 1 and
  July 1 are counted in both years. The levels of \<^verbatim>\<open>getBiWeeklyData\<close>, which
  compares the days with \<^verbatim>\<open>isSameDay\<close>, sum to 2 on the same input.
\<close>

theorem year_zero_levels:
  "parseAll 0 [''0001-06-01'', ''0000-07-01''] =
     Some [localMidnight 0 (- 719011), localMidnight 0 (- 719346)] \<and>
   card (localDay 0 ` set [localMidnight 0 (- 719011), localMidnight 0 (- 719346)]) = 2 \<and>
   map_option (\<lambda>bs. sum_list (map level bs))
     (getDailyData 0 [''0001-06-01'', ''0000-07-01'']) = Some 4 \<and>
   map_option (\<lambda>bs. sum_list (map level bs))
     (getWeeklyData 0 [''0001-06-01'', ''0000-07-01'']) = Some 4 \<and>
   map_option (\<lambda>bs. sum_list (map level bs))
     (getMonthlyData 0 [''0001-06-01'', ''0000-07-01'']) = Some 4 \<and>
   map_option (\<lambda>bs. sum_list (map level bs))
     (getQuarterlyData 0 [''0001-06-01'', ''0000-07-01'']) = Some 4 \<and>
   map_option (\<lambda>bs. sum_list (map level bs))
     (getSemesterlyData 0 [''0001-06-01'', ''0000-07-01'']) = Some 4 \<and>
   map_option (\<lambda>bs. sum_list (map level bs))
     (getBiWeeklyData 0 [''0001-06-01'', ''0000-07-01'']) = Some 2"
proof -
  let ?a = "localMidnight 0 (- 719011)" and ?b = "localMidnight 0 (- 719346)"
  have p: "parseAll 0 [''0001-06-01'', ''0000-07-01''] = Some [?a, ?b]"
    by (simp add: parse_00010601 parse_00000701)
  have e: "earliestOf ?a [?b] = ?b" and l: "latestOf ?a [?b] = ?a"
    by (simp_all add: earliestOf_def latestOf_def)
  have f: "filter (\<lambda>d. completedOn 0 [?a, ?b] (localMidnight 0 d)) [- 719528 .. - 718798] =
        filter (\<lambda>d. d \<in> {- 719376, - 719346, - 719011, - 718981}) [- 719528 .. - 718798]"
    by (rule filter_cong_range) (rule completed_year0)
  have s: "{- 719376, - 719346, - 719011, - 718981} \<subseteq> {- 719528 .. - 718798 :: int}"
    by simp
  have c: "card {- 719376, - 719346, - 719011, - 718981 :: int} = 4" by simp
  have n: "length (filter (\<lambda>d. completedOn 0 [?a, ?b] (localMidnight 0 d))
      [DayFromYear (getYear 0 ?b) .. DayFromYear (getYear 0 ?a + 1) - 1]) = 4"
    unfolding window_year0 f count_days [OF s] by (rule c)
  note w = window_sum [OF n]
  have k: "card (localDay 0 ` set [?a, ?b]) = 2" by simp
  have "sum_list (map level (dailyBuckets 0 ?a [?b])) = 4"
    using w by (simp add: dailyBuckets_def Let_def e l)
  moreover have "sum_list (map level (weeklyBuckets 0 ?a [?b])) = 4"
    using w by (simp add: weeklyBuckets_def Let_def e l)
  moreover have "sum_list (map level (monthlyBuckets 0 ?a [?b])) = 4"
    using w by (simp add: monthlyBuckets_def Let_def e l)
  moreover have "sum_list (map level (quarterlyBuckets 0 ?a [?b])) = 4"
    using w by (simp add: quarterlyBuckets_def Let_def e l)
  moreover have "sum_list (map level (semesterlyBuckets 0 ?a [?b])) = 4"
    using w by (simp add: semesterlyBuckets_def Let_def e l)
  moreover have "sum_list (map level (biWeeklyBuckets 0 ?a [?b])) = 2"
    using levels_sum_sameDay [of 0 ?a "[?b]"] unfolding k by simp
  ultimately show ?thesis
    using p k
    by (simp add: getDailyData_def getWeeklyData_def getMonthlyData_def getQuarterlyData_def
        getSemesterlyData_def getBiWeeklyData_def)
qed

section \<open>The range of the periods\<close>

text \<open>
  Claim C5, as stated, fails for weeks: \<^verbatim>\<open>totalWeeks\<close> is the week number of
  December 31, which is 1 whenever the last week of the year runs into January. For
  the single date 2024-01-01 \<^verbatim>\<open>totalWeeks\<close> is 1, yet \<^verbatim>\<open>getWeeklyData\<close> returns
  the buckets of the weeks 1 to 52: the main loop creates them, not the post-pass.
\<close>

theorem weeks_beyond_totalWeeks:
  "parseAll 0 [''2024-01-01''] = Some [localMidnight 0 19723] \<and>
   getWeek 0 (endOfYear 0 (latestOf (localMidnight 0 19723) [])) = 1 \<and>
   map_option (map period) (getWeeklyData 0 [''2024-01-01'']) = Some [1..52]"
proof -
  have p: "parseAll 0 [''2024-01-01''] = Some [localMidnight 0 19723]"
    by (simp add: parse_20240101)
  have "map period (weeklyBuckets 0 (localMidnight 0 19723) []) = [1..52]"
    using week_periods(1) [of 0 "localMidnight 0 19723" "localMidnight 0 19723" "()"
        "completedOn 0 [localMidnight 0 19723]" "\<lambda>day u. u"]
    unfolding weeks_2024 max_week_2024
    by (simp add: weeklyBuckets_def Let_def earliestOf_def latestOf_def weeks_2024)
  with p show ?thesis by (simp add: getWeeklyData_def latestOf_def weeks_2024)
qed

text \<open>
  Claim C5, amended. On the time values of a non-empty list of dates the buckets
  are in ascending order of their period index, one bucket for each index of a
  gap-free range from 1: 1..12 for months, 1..4 for quarters, 1..2 for semesters,
  1..N for weeks (\<^verbatim>\<open>getDailyData\<close>, \<^verbatim>\<open>getWeeklyData\<close>) and 1..\<open>\<lceil>N/2\<rceil>\<close> for
  bi-weeks, where N is the largest week number of any day in the window, the days
  from January 1 of the earliest date's year to December 31 of the latest date's
  year. N is 52 or 53, and at least \<^verbatim>\<open>totalWeeks\<close>.
\<close>

theorem bucket_periods:
  assumes "N = Max ((\<lambda>d. getWeek tz (localMidnight tz d)) `
                      {DayFromYear (getYear tz (earliestOf first rest)) ..
                       DayFromYear (getYear tz (latestOf first rest) + 1) - 1})"
  shows "map period (monthlyBuckets tz first rest) = [1..12] \<and>
         map period (quarterlyBuckets tz first rest) = [1..4] \<and>
         map period (semesterlyBuckets tz first rest) = [1..2] \<and>
         map period (dailyBuckets tz first rest) = [1..N] \<and>
         map period (weeklyBuckets tz first rest) = [1..N] \<and>
         map period (biWeeklyBuckets tz first rest) = [1..ceilHalf N] \<and>
         52 \<le> N \<and> N \<le> 53 \<and>
         getWeek tz (endOfYear tz (latestOf first rest)) \<le> N \<and>
         (parseAll tz data = Some (first # rest) \<longrightarrow>
            getMonthlyData tz data = Some (monthlyBuckets tz first rest) \<and>
            getQuarterlyData tz data = Some (quarterlyBuckets tz first rest) \<and>
            getSemesterlyData tz data = Some (semesterlyBuckets tz first rest) \<and>
            getDailyData tz data = Some (dailyBuckets tz first rest) \<and>
            getWeeklyData tz data = Some (weeklyBuckets tz first rest) \<and>
            getBiWeeklyData tz data = Some (biWeeklyBuckets tz first rest))"
proof (intro conjI impI)
  note yo = years_ordered [of tz first rest]
  show "map period (monthlyBuckets tz first rest) = [1..12]"
    using fixed_periods [of "\<lambda>day. getMonth tz day + 1" 12] month_range [of tz]
    by (simp add: monthlyBuckets_def Let_def)
  show "map period (quarterlyBuckets tz first rest) = [1..4]"
    using fixed_periods [of "getQuarter tz" 4] quarter_range [of tz]
    by (simp add: quarterlyBuckets_def Let_def)
  show "map period (semesterlyBuckets tz first rest) = [1..2]"
    using fixed_periods [OF semester_range [of tz]]
    by (simp add: semesterlyBuckets_def Let_def)
  show "map period (dailyBuckets tz first rest) = [1..N]"
    unfolding assms using week_periods(1) [OF yo] by (simp add: dailyBuckets_def Let_def)
  show "map period (weeklyBuckets tz first rest) = [1..N]"
    unfolding assms using week_periods(1) [OF yo] by (simp add: weeklyBuckets_def Let_def)
  show "map period (biWeeklyBuckets tz first rest) = [1..ceilHalf N]"
    unfolding assms using biweek_periods [OF yo] by (simp add: biWeeklyBuckets_def Let_def)
  show "52 \<le> N" unfolding assms using yo by (rule weeks_max)
  show "N \<le> 53" unfolding assms using yo by (rule weeks_max)
  show "getWeek tz (endOfYear tz (latestOf first rest)) \<le> N"
    unfolding assms using yo by (rule week_periods)
next
  assume p: "parseAll tz data = Some (first # rest)"
  note ne = parsed_nonempty [OF p]
  show "getMonthlyData tz data = Some (monthlyBuckets tz first rest)"
    using p ne by (simp add: getMonthlyData_def)
  show "getQuarterlyData tz data = Some (quarterlyBuckets tz first rest)"
    using p ne by (simp add: getQuarterlyData_def)
  show "getSemesterlyData tz data = Some (semesterlyBuckets tz first rest)"
    using p ne by (simp add: getSemesterlyData_def)
  show "getDailyData tz data = Some (dailyBuckets tz first rest)"
    using p ne by (simp add: getDailyData_def)
  show "getWeeklyData tz data = Some (weeklyBuckets tz first rest)"
    using p ne by (simp add: getWeeklyData_def)
  show "getBiWeeklyData tz data = Some (biWeeklyBuckets tz first rest)"
    using p ne by (simp add: getBiWeeklyData_def)
qed

theorem bucket_periods_witness:
  "parseAll 0 [''2024-03-05T10:30'', ''2024-01-01'', ''2024-03-05''] =
     Some [localMidnight 0 19787 + 37800000, localMidnight 0 19723, localMidnight 0 19787] \<and>
   map_option (map period)
     (getMonthlyData 0 [''2024-03-05T10:30'', ''2024-01-01'', ''2024-03-05'']) = Some [1..12] \<and>
   map_option (map period)
     (getQuarterlyData 0 [''2024-03-05T10:30'', ''2024-01-01'', ''2024-03-05'']) = Some [1..4] \<and>
   map_option (map period)
     (getSemesterlyData 0 [''2024-03-05T10:30'', ''2024-01-01'', ''2024-03-05'']) = Some [1..2] \<and>
   map_option (map period)
     (getDailyData 0 [''2024-03-05T10:30'', ''2024-01-01'', ''2024-03-05'']) = Some [1..52] \<and>
   map_option (map period)
     (getWeeklyData 0 [''2024-03-05T10:30'', ''2024-01-01'', ''2024-03-05'']) = Some [1..52] \<and>
   map_option (map period)
     (getBiWeeklyData 0 [''2024-03-05T10:30'', ''2024-01-01'', ''2024-03-05'']) = Some [1..26] \<and>
   getWeek 0 (endOfYear 0 (localMidnight 0 19787 + 37800000)) = 1"
proof -
  let ?a = "localMidnight 0 19787 + 37800000" and ?b = "localMidnight 0 19723"
    and ?c = "localMidnight 0 19787"
  have p: "parseAll 0 [''2024-03-05T10:30'', ''2024-01-01'', ''2024-03-05''] = Some [?a, ?b, ?c]"
    by (simp add: parse_20240305T1030 parse_20240101 parse_20240305)
  have e: "earliestOf ?a [?b, ?c] = ?b" and l: "latestOf ?a [?b, ?c] = ?a"
    by (simp_all add: earliestOf_def latestOf_def localMidnight_def msPerDay_def)
  have y: "getYear 0 ?a = 2024" "getYear 0 ?b = 2024"
    by (simp_all add: getYear_def localDay_within msPerDay_def YearFromDay_def DayFromYear_def)
  have j: "DayFromYear 2024 = 19723" "DayFromYear (2024 + 1) - 1 = 20088"
    by (simp_all add: DayFromYear_def)
  have "endOfYear 0 ?a = endOfYear 0 ?b" by (simp only: endOfYear_eq y)
  then have t: "getWeek 0 (endOfYear 0 ?a) = 1" using weeks_2024(1) by simp
  have n: "52 = Max ((\<lambda>d. getWeek 0 (localMidnight 0 d)) `
      {DayFromYear (getYear 0 (earliestOf ?a [?b, ?c])) ..
       DayFromYear (getYear 0 (latestOf ?a [?b, ?c]) + 1) - 1})"
    unfolding e l y j max_week_2024 ..
  have h: "ceilHalf 52 = 26" by (simp add: ceilHalf_def)
  from bucket_periods [OF n, of "[''2024-03-05T10:30'', ''2024-01-01'', ''2024-03-05'']"] p t
  show ?thesis by (simp add: h)
qed

end
